theory Spec2Isabelle
  imports Main "HOL-Library.Sublist"
begin

unbundle bit_operations_syntax

section \<open>The filesystem the context manager works on\<close>

text \<open>
  \<^verbatim>\<open>writer_cm\<close> is a generator-based context manager whose every effect is a call of a
  filesystem primitive of the standard library or of \<^verbatim>\<open>atomicwrites\<close>. The filesystem
  is therefore the explicit state of the model. A path is the list of its components
  below the root, so \<open>[]\<close> is the root directory \<^verbatim>\<open>/\<close>. Every entry carries its
  permission bits and the names of its owner and of its group.
\<close>

type_synonym path = "string list"

record meta =
  mode :: int
  owner :: string
  grp :: string

datatype node = File (contents: string) (meta: meta) | Dir (meta: meta)

type_synonym fs = "path \<Rightarrow> node option"

fun update_meta :: "(meta \<Rightarrow> meta) \<Rightarrow> node \<Rightarrow> node" where
  "update_meta f (File c m) = File c (f m)"
| "update_meta f (Dir m) = Dir (f m)"

text \<open>
  The exceptions of the model. An \<open>OSError\<close> has the class Python derives from the
  errno, the \<^verbatim>\<open>filename\<close> and, for calls on two paths, the \<^verbatim>\<open>filename2\<close> that its
  message prints. \<open>Exception\<close> stands for any other exception a caller may raise.
\<close>

datatype errclass =
  FileExistsError | IsADirectoryError | PermissionError | FileNotFoundError | NotADirectoryError

datatype error =
  OSError errclass path "path option"
| LookupError string
| OverflowError
| ValueError
| Exception string

type_synonym 'a result = "(error + 'a) \<times> fs"

text \<open>
  The calling process: its effective user and group, its supplementary groups, whether
  it bypasses permission checks (root), its umask, the user and group databases that
  \<^verbatim>\<open>shutil.chown\<close> looks names up in, and the sequence of random names that
  \<^verbatim>\<open>tempfile\<close> draws from, by position.
\<close>

record proc =
  euser :: string
  egroup :: string
  groups :: "string list"
  privileged :: bool
  umask :: int
  passwd :: "string list"
  group_db :: "string list"
  rand_name :: "nat \<Rightarrow> string"

subsection \<open>Permission checks and path resolution\<close>

text \<open>
  The three bits (read 4, write 2, search 1) of the class the process falls in: owner,
  group or other.
\<close>

definition perm_bits :: "proc \<Rightarrow> meta \<Rightarrow> int" where
  "perm_bits pr m =
     (if owner m = euser pr then (mode m div 64) mod 8
      else if grp m \<in> set (egroup pr # groups pr) then (mode m div 8) mod 8
      else mode m mod 8)"

definition access :: "proc \<Rightarrow> meta \<Rightarrow> int \<Rightarrow> bool" where
  "access pr m want = (privileged pr \<or> (perm_bits pr m) AND want = want)"

text \<open>
  Resolving a path needs every directory above its last component to exist, to be a
  directory and to be searchable. \<open>dir_check\<close> gives the class of the error for one
  directory, and \<open>walk pr fs cur cs\<close> checks the directories from \<open>cur\<close> down along
  \<open>cs\<close>, stopping at the first failure.
\<close>

definition dir_check :: "proc \<Rightarrow> fs \<Rightarrow> path \<Rightarrow> errclass option" where
  "dir_check pr fs d =
     (case fs d of
        None \<Rightarrow> Some FileNotFoundError
      | Some (File _ _) \<Rightarrow> Some NotADirectoryError
      | Some (Dir m) \<Rightarrow> if access pr m 1 then None else Some PermissionError)"

fun walk :: "proc \<Rightarrow> fs \<Rightarrow> path \<Rightarrow> string list \<Rightarrow> errclass option" where
  "walk pr fs cur [] = None"
| "walk pr fs cur (c # cs) =
     (case dir_check pr fs cur of
        Some e \<Rightarrow> Some e
      | None \<Rightarrow> walk pr fs (cur @ [c]) cs)"

text \<open>Creating or removing an entry needs write and search permission on its directory.\<close>

definition writable_dir :: "proc \<Rightarrow> fs \<Rightarrow> path \<Rightarrow> bool" where
  "writable_dir pr fs d = (case fs d of Some (Dir m) \<Rightarrow> access pr m 3 | _ \<Rightarrow> False)"

text \<open>
  In a sticky directory an unprivileged process may remove or replace only the entries
  it owns, unless it owns the directory.
\<close>

definition sticky_ok :: "proc \<Rightarrow> fs \<Rightarrow> path \<Rightarrow> bool" where
  "sticky_ok pr fs p =
     (case fs (butlast p) of
        Some (Dir dm) \<Rightarrow>
          mode dm AND 512 = 0 \<or> privileged pr \<or> owner dm = euser pr \<or>
          (case fs p of None \<Rightarrow> True | Some n \<Rightarrow> owner (meta n) = euser pr)
      | _ \<Rightarrow> True)"

definition in_group :: "proc \<Rightarrow> string \<Rightarrow> bool" where
  "in_group pr g = (g \<in> set (egroup pr # groups pr))"

text \<open>
  The metadata of an entry created in the directory \<open>d\<close> with the permission bits
  \<open>md\<close>: it belongs to the process, and its group is the process's group unless \<open>d\<close>
  has the set-group-ID bit (\<^verbatim>\<open>0o2000\<close>), in which case it takes the group of \<open>d\<close> and a
  new directory takes the bit as well.
\<close>

definition created :: "proc \<Rightarrow> fs \<Rightarrow> path \<Rightarrow> bool \<Rightarrow> int \<Rightarrow> meta" where
  "created pr fs d is_dir md =
     (case fs d of
        Some (Dir dm) \<Rightarrow>
          if mode dm AND 1024 \<noteq> 0
          then \<lparr>mode = (if is_dir then md OR 1024 else md), owner = euser pr, grp = grp dm\<rparr>
          else \<lparr>mode = md, owner = euser pr, grp = egroup pr\<rparr>
      | _ \<Rightarrow> \<lparr>mode = md, owner = euser pr, grp = egroup pr\<rparr>)"

subsection \<open>The primitives\<close>

text \<open>
  Creating one directory: not recursive, fails if the entry exists. The existence check
  comes before the write-permission check, as in the kernel.
\<close>

definition os_mkdir :: "proc \<Rightarrow> fs \<Rightarrow> path \<Rightarrow> int \<Rightarrow> unit result" where
  "os_mkdir pr fs p md =
     (case walk pr fs [] p of
        Some c \<Rightarrow> (Inl (OSError c p None), fs)
      | None \<Rightarrow>
         (case fs p of
            Some _ \<Rightarrow> (Inl (OSError FileExistsError p None), fs)
          | None \<Rightarrow>
             if \<not> writable_dir pr fs (butlast p) then (Inl (OSError PermissionError p None), fs)
             else (Inr (), fs(p \<mapsto> Dir (created pr fs (butlast p) True md)))))"

text \<open>\<^verbatim>\<open>Path.mkdir()\<close> is \<^verbatim>\<open>os.mkdir(path, 0o777)\<close>, which creates with \<^verbatim>\<open>0o777 & ~umask\<close>.\<close>

definition mkdir :: "proc \<Rightarrow> fs \<Rightarrow> path \<Rightarrow> unit result" where
  "mkdir pr fs p = os_mkdir pr fs p (511 AND NOT (umask pr))"

text \<open>
  \<^verbatim>\<open>Path.chmod(mode)\<close>: the mode is converted to a C \<^verbatim>\<open>int\<close> (\<^verbatim>\<open>OverflowError\<close> outside
  its range); only the owner or a privileged process may change the mode; the kernel
  keeps the twelve bits \<^verbatim>\<open>0o7777\<close>, and turns the set-group-ID bit off, without an
  error, when an unprivileged process is not in the entry's group.
\<close>

definition chmod_mode :: "proc \<Rightarrow> meta \<Rightarrow> int \<Rightarrow> int" where
  "chmod_mode pr m md =
     (if privileged pr \<or> in_group pr (grp m) then md AND 4095 else md AND 3071)"

definition chmod :: "proc \<Rightarrow> fs \<Rightarrow> path \<Rightarrow> int \<Rightarrow> unit result" where
  "chmod pr fs p md =
     (if md < - 2147483648 \<or> 2147483648 \<le> md then (Inl OverflowError, fs)
      else case walk pr fs [] p of
        Some c \<Rightarrow> (Inl (OSError c p None), fs)
      | None \<Rightarrow>
         (case fs p of
            None \<Rightarrow> (Inl (OSError FileNotFoundError p None), fs)
          | Some n \<Rightarrow>
             if privileged pr \<or> owner (meta n) = euser pr
             then (Inr (), fs(p \<mapsto> update_meta (\<lambda>m. m\<lparr>mode := chmod_mode pr m md\<rparr>) n))
             else (Inl (OSError PermissionError p None), fs)))"

text \<open>
  \<^verbatim>\<open>os.chown\<close>: an unprivileged process may not give a file away, and may change the
  group of its own file only to one of its own groups. On anything but a directory the
  kernel clears the set-user-ID bit (\<^verbatim>\<open>0o4000\<close>), and the set-group-ID bit too when the
  file is group-executable.
\<close>

definition drop_set_id :: "int \<Rightarrow> int" where
  "drop_set_id md = (if md AND 8 \<noteq> 0 then md AND NOT 3072 else md AND NOT 2048)"

fun chown_node :: "string option \<Rightarrow> string option \<Rightarrow> node \<Rightarrow> node" where
  "chown_node user group_name (File c m) =
     File c (m\<lparr>mode := drop_set_id (mode m),
               owner := (case user of None \<Rightarrow> owner m | Some u \<Rightarrow> u),
               grp := (case group_name of None \<Rightarrow> grp m | Some g \<Rightarrow> g)\<rparr>)"
| "chown_node user group_name (Dir m) =
     Dir (m\<lparr>owner := (case user of None \<Rightarrow> owner m | Some u \<Rightarrow> u),
            grp := (case group_name of None \<Rightarrow> grp m | Some g \<Rightarrow> g)\<rparr>)"

definition chown_allowed :: "proc \<Rightarrow> string \<Rightarrow> string option \<Rightarrow> string option \<Rightarrow> bool" where
  "chown_allowed pr own user group_name =
     (privileged pr \<or>
      (own = euser pr \<and>
       (case user of None \<Rightarrow> True | Some u \<Rightarrow> u = own) \<and>
       (case group_name of None \<Rightarrow> True | Some g \<Rightarrow> g \<in> set (egroup pr # groups pr))))"

definition os_chown :: "proc \<Rightarrow> fs \<Rightarrow> path \<Rightarrow> string option \<Rightarrow> string option \<Rightarrow> unit result" where
  "os_chown pr fs p user group_name =
     (case walk pr fs [] p of
        Some c \<Rightarrow> (Inl (OSError c p None), fs)
      | None \<Rightarrow>
         (case fs p of
            None \<Rightarrow> (Inl (OSError FileNotFoundError p None), fs)
          | Some n \<Rightarrow>
             if chown_allowed pr (owner (meta n)) user group_name
             then (Inr (), fs(p \<mapsto> chown_node user group_name n))
             else (Inl (OSError PermissionError p None), fs)))"

text \<open>
  \<^verbatim>\<open>shutil.chown(path, user, group)\<close>: at least one of the two must be given, each given
  name is looked up (user first), then \<^verbatim>\<open>os.chown\<close> is called.
\<close>

definition unknown :: "string list \<Rightarrow> string option \<Rightarrow> string option" where
  "unknown db x = (case x of None \<Rightarrow> None | Some u \<Rightarrow> if u \<in> set db then None else Some u)"

definition chown :: "proc \<Rightarrow> fs \<Rightarrow> path \<Rightarrow> string option \<Rightarrow> string option \<Rightarrow> unit result" where
  "chown pr fs p user group_name =
     (if user = None \<and> group_name = None then (Inl ValueError, fs)
      else case unknown (passwd pr) user of
        Some u \<Rightarrow> (Inl (LookupError (''no such user: '' @ u)), fs)
      | None \<Rightarrow>
         (case unknown (group_db pr) group_name of
            Some g \<Rightarrow> (Inl (LookupError (''no such group: '' @ g)), fs)
          | None \<Rightarrow> os_chown pr fs p user group_name))"

text \<open>
  \<^verbatim>\<open>tempfile.mkdtemp(suffix, prefix, dir)\<close>, which \<^verbatim>\<open>TemporaryDirectory\<close> calls: it tries
  up to \<^verbatim>\<open>TMP_MAX\<close> random names, going on to the next one only when the name is taken.
  The directory is created for its owner alone (\<^verbatim>\<open>0o700\<close>), as documented.
\<close>

definition TMP_MAX :: nat where
  "TMP_MAX = 10000"

definition candidate :: "proc \<Rightarrow> path \<Rightarrow> string \<Rightarrow> string \<Rightarrow> nat \<Rightarrow> path" where
  "candidate pr dir pre suf seq = dir @ [pre @ rand_name pr seq @ suf]"

fun name_taken :: "error \<Rightarrow> bool" where
  "name_taken (OSError FileExistsError _ _) = True"
| "name_taken _ = False"

fun mkdtemp_from :: "proc \<Rightarrow> fs \<Rightarrow> path \<Rightarrow> string \<Rightarrow> string \<Rightarrow> nat \<Rightarrow> nat \<Rightarrow> path result" where
  "mkdtemp_from pr fs dir pre suf seq 0 = (Inl (OSError FileExistsError [] None), fs)"
| "mkdtemp_from pr fs dir pre suf seq (Suc n) =
     (case os_mkdir pr fs (candidate pr dir pre suf seq) 448 of
        (Inl e, fs') \<Rightarrow>
          if name_taken e then mkdtemp_from pr fs dir pre suf (Suc seq) n else (Inl e, fs')
      | (Inr _, fs') \<Rightarrow> (Inr (candidate pr dir pre suf seq), fs'))"

definition mkdtemp :: "proc \<Rightarrow> fs \<Rightarrow> string \<Rightarrow> string \<Rightarrow> path \<Rightarrow> path result" where
  "mkdtemp pr fs suf pre dir = mkdtemp_from pr fs dir pre suf 0 TMP_MAX"

text \<open>
  \<^verbatim>\<open>TemporaryDirectory.cleanup\<close>: the directory and everything below it is removed, which
  needs the directory that holds it to be reachable and writable.
\<close>

definition cleanup :: "proc \<Rightarrow> fs \<Rightarrow> path \<Rightarrow> unit result" where
  "cleanup pr fs d =
     (case walk pr fs [] d of
        Some c \<Rightarrow> (Inl (OSError c d None), fs)
      | None \<Rightarrow>
         if \<not> writable_dir pr fs (butlast d) \<or> \<not> sticky_ok pr fs d
         then (Inl (OSError PermissionError d None), fs)
         else (Inr (), (\<lambda>q. if prefix d q then None else fs q)))"

text \<open>
  \<^verbatim>\<open>os.rename\<close>: one step that puts the source entry at the destination, whether or not
  the destination exists, and fails when a file would replace a directory or a directory
  a file.
\<close>

definition os_rename :: "proc \<Rightarrow> fs \<Rightarrow> path \<Rightarrow> path \<Rightarrow> unit result" where
  "os_rename pr fs src dst =
     (case walk pr fs [] src of
        Some c \<Rightarrow> (Inl (OSError c src (Some dst)), fs)
      | None \<Rightarrow>
         (case fs src of
            None \<Rightarrow> (Inl (OSError FileNotFoundError src (Some dst)), fs)
          | Some n \<Rightarrow>
             (case walk pr fs [] dst of
                Some c \<Rightarrow> (Inl (OSError c src (Some dst)), fs)
              | None \<Rightarrow>
                 if \<not> writable_dir pr fs (butlast src) \<or> \<not> writable_dir pr fs (butlast dst) \<or>
                    \<not> sticky_ok pr fs src \<or> \<not> sticky_ok pr fs dst
                 then (Inl (OSError PermissionError src (Some dst)), fs)
                 else (case (n, fs dst) of
                         (File _ _, Some (Dir _)) \<Rightarrow> (Inl (OSError IsADirectoryError src (Some dst)), fs)
                       | (Dir _, Some (File _ _)) \<Rightarrow> (Inl (OSError NotADirectoryError src (Some dst)), fs)
                       | _ \<Rightarrow> (Inr (), (fs(src := None))(dst \<mapsto> n))))))"

text \<open>
  \<^verbatim>\<open>atomicwrites\<close> flushes a directory after changing it: \<^verbatim>\<open>_sync_directory\<close> opens the
  directory for reading, which an unprivileged process may be denied, and syncs it.
\<close>

definition sync_directory :: "proc \<Rightarrow> fs \<Rightarrow> path \<Rightarrow> unit result" where
  "sync_directory pr fs d =
     (case walk pr fs [] d of
        Some c \<Rightarrow> (Inl (OSError c d None), fs)
      | None \<Rightarrow>
         (case fs d of
            None \<Rightarrow> (Inl (OSError FileNotFoundError d None), fs)
          | Some n \<Rightarrow>
             if access pr (meta n) 4 then (Inr (), fs)
             else (Inl (OSError PermissionError d None), fs)))"

text \<open>
  \<^verbatim>\<open>atomicwrites.replace_atomic(src, dst)\<close> is \<^verbatim>\<open>os.rename(src, dst)\<close> followed by
  \<^verbatim>\<open>_sync_directory\<close> on the directory of \<^verbatim>\<open>dst\<close>.
\<close>

definition replace_atomic :: "proc \<Rightarrow> fs \<Rightarrow> path \<Rightarrow> path \<Rightarrow> unit result" where
  "replace_atomic pr fs src dst =
     (case os_rename pr fs src dst of
        (Inl e, fs1) \<Rightarrow> (Inl e, fs1)
      | (Inr _, fs1) \<Rightarrow> sync_directory pr fs1 (butlast dst))"

text \<open>
  \<^verbatim>\<open>atomicwrites.move_atomic(src, dst)\<close> is \<^verbatim>\<open>os.link(src, dst)\<close>, which fails if the
  destination exists, followed by \<^verbatim>\<open>os.unlink(src)\<close> and by \<^verbatim>\<open>_sync_directory\<close> on the
  directory of \<^verbatim>\<open>dst\<close> and then, if it is another one, on that of \<^verbatim>\<open>src\<close>.
\<close>

definition os_link :: "proc \<Rightarrow> fs \<Rightarrow> path \<Rightarrow> path \<Rightarrow> unit result" where
  "os_link pr fs src dst =
     (case walk pr fs [] src of
        Some c \<Rightarrow> (Inl (OSError c src (Some dst)), fs)
      | None \<Rightarrow>
         (case fs src of
            None \<Rightarrow> (Inl (OSError FileNotFoundError src (Some dst)), fs)
          | Some n \<Rightarrow>
             (case walk pr fs [] dst of
                Some c \<Rightarrow> (Inl (OSError c src (Some dst)), fs)
              | None \<Rightarrow>
                 (case fs dst of
                    Some _ \<Rightarrow> (Inl (OSError FileExistsError src (Some dst)), fs)
                  | None \<Rightarrow>
                     if \<not> writable_dir pr fs (butlast dst)
                     then (Inl (OSError PermissionError src (Some dst)), fs)
                     else (case n of
                             Dir _ \<Rightarrow> (Inl (OSError PermissionError src (Some dst)), fs)
                           | File _ _ \<Rightarrow> (Inr (), fs(dst \<mapsto> n)))))))"

definition os_unlink :: "proc \<Rightarrow> fs \<Rightarrow> path \<Rightarrow> unit result" where
  "os_unlink pr fs p =
     (case walk pr fs [] p of
        Some c \<Rightarrow> (Inl (OSError c p None), fs)
      | None \<Rightarrow>
         (case fs p of
            None \<Rightarrow> (Inl (OSError FileNotFoundError p None), fs)
          | Some n \<Rightarrow>
             if \<not> writable_dir pr fs (butlast p) \<or> \<not> sticky_ok pr fs p
             then (Inl (OSError PermissionError p None), fs)
             else (case n of
                     Dir _ \<Rightarrow> (Inl (OSError IsADirectoryError p None), fs)
                   | File _ _ \<Rightarrow> (Inr (), fs(p := None)))))"

definition move_atomic :: "proc \<Rightarrow> fs \<Rightarrow> path \<Rightarrow> path \<Rightarrow> unit result" where
  "move_atomic pr fs src dst =
     (case os_link pr fs src dst of
        (Inl e, fs1) \<Rightarrow> (Inl e, fs1)
      | (Inr _, fs1) \<Rightarrow>
         (case os_unlink pr fs1 src of
            (Inl e, fs2) \<Rightarrow> (Inl e, fs2)
          | (Inr _, fs2) \<Rightarrow>
             (case sync_directory pr fs2 (butlast dst) of
                (Inl e, fs3) \<Rightarrow> (Inl e, fs3)
              | (Inr _, fs3) \<Rightarrow>
                 if butlast src \<noteq> butlast dst then sync_directory pr fs3 (butlast src)
                 else (Inr (), fs3))))"

section \<open>The context manager\<close>

text \<open>\<^verbatim>\<open>_set_properties\<close>: the permissions, then the ownership if a user or a group is given.\<close>

definition set_properties ::
  "proc \<Rightarrow> fs \<Rightarrow> path \<Rightarrow> int \<Rightarrow> string option \<Rightarrow> string option \<Rightarrow> unit result" where
  "set_properties pr fs path permissions user group_name =
     (case chmod pr fs path permissions of
        (Inl e, fs1) \<Rightarrow> (Inl e, fs1)
      | (Inr _, fs1) \<Rightarrow>
         if user \<noteq> None \<or> group_name \<noteq> None then chown pr fs1 path user group_name
         else (Inr (), fs1))"

text \<open>
  What an entry is once both calls of \<^verbatim>\<open>_set_properties\<close> have succeeded.
\<close>

definition set_node :: "proc \<Rightarrow> int \<Rightarrow> string option \<Rightarrow> string option \<Rightarrow> node \<Rightarrow> node" where
  "set_node pr permissions user group_name n =
     (if user = None \<and> group_name = None
      then update_meta (\<lambda>m. m\<lparr>mode := chmod_mode pr m permissions\<rparr>) n
      else chown_node user group_name
             (update_meta (\<lambda>m. m\<lparr>mode := chmod_mode pr m permissions\<rparr>) n))"

text \<open>
  The keyword arguments of \<^verbatim>\<open>writer_cm\<close>. The defaults are
  \<^verbatim>\<open>S_IRUSR | S_IWUSR | S_IXUSR | S_IRGRP | S_IXGRP\<close> for directories and
  \<^verbatim>\<open>S_IRUSR | S_IWUSR\<close> for the file.
\<close>

record config =
  overwrite :: bool
  dir_perms :: int
  file_perms :: int
  user :: "string option"
  group_name :: "string option"

definition default_config :: config where
  "default_config =
     \<lparr>overwrite = False, dir_perms = 488, file_perms = 384, user = None, group_name = None\<rparr>"

text \<open>\<^verbatim>\<open>suppress(FileExistsError, IsADirectoryError, PermissionError)\<close>.\<close>

fun suppressed :: "error \<Rightarrow> bool" where
  "suppressed (OSError FileExistsError _ _) = True"
| "suppressed (OSError IsADirectoryError _ _) = True"
| "suppressed (OSError PermissionError _ _) = True"
| "suppressed _ = False"

definition suppress :: "unit result \<Rightarrow> unit result" where
  "suppress r = (case r of (Inl e, s) \<Rightarrow> if suppressed e then (Inr (), s) else (Inl e, s)
                 | (Inr u, s) \<Rightarrow> (Inr u, s))"

text \<open>
  The body of the loop over the parent's parts: inside the \<^verbatim>\<open>suppress\<close> block the
  directory is created and, if that did not raise, given its properties.
\<close>

definition create_parent :: "proc \<Rightarrow> config \<Rightarrow> fs \<Rightarrow> path \<Rightarrow> unit result" where
  "create_parent pr cfg fs path_parent =
     suppress
       (case mkdir pr fs path_parent of
          (Inl e, fs1) \<Rightarrow> (Inl e, fs1)
        | (Inr _, fs1) \<Rightarrow>
           set_properties pr fs1 path_parent (dir_perms cfg) (user cfg) (group_name cfg))"

text \<open>
  \<^verbatim>\<open>for idx, _ in enumerate(parts)\<close>. The first part of an absolute path is the root, so
  \<^verbatim>\<open>Path(*parts[: (idx + 1)])\<close> is the root followed by the first \<open>idx\<close> components of
  the parent.
\<close>

fun provision :: "proc \<Rightarrow> config \<Rightarrow> path \<Rightarrow> nat list \<Rightarrow> fs \<Rightarrow> unit result" where
  "provision pr cfg parent [] fs = (Inr (), fs)"
| "provision pr cfg parent (idx # idxs) fs =
     (case create_parent pr cfg fs (take idx parent) of
        (Inl e, fs1) \<Rightarrow> (Inl e, fs1)
      | (Inr _, fs1) \<Rightarrow> provision pr cfg parent idxs fs1)"

text \<open>
  The code run on entering the \<^verbatim>\<open>with\<close> statement, up to the \<^verbatim>\<open>yield\<close>. The resolved
  destination is given by the components of its parent and by its name, so it is
  \<open>parent @ [name]\<close>. The result is the temporary directory and the yielded path.
\<close>

definition writer_cm_enter ::
  "proc \<Rightarrow> config \<Rightarrow> path \<Rightarrow> string \<Rightarrow> fs \<Rightarrow> (path \<times> path) result" where
  "writer_cm_enter pr cfg parent name fs =
     (case provision pr cfg parent [0..<Suc (length parent)] fs of
        (Inl e, fs1) \<Rightarrow> (Inl e, fs1)
      | (Inr _, fs1) \<Rightarrow>
         (case mkdtemp pr fs1 ''.tmp'' name parent of
            (Inl e, fs2) \<Rightarrow> (Inl e, fs2)
          | (Inr temp_dir, fs2) \<Rightarrow> (Inr (temp_dir, temp_dir @ [name]), fs2)))"

text \<open>
  The statements after the \<^verbatim>\<open>yield\<close>, run when the caller's block ends normally:
  the \<^verbatim>\<open>if overwrite\<close> with its two branches, then \<^verbatim>\<open>_set_properties\<close> on the
  destination.
\<close>

definition move_staged :: "proc \<Rightarrow> config \<Rightarrow> path \<Rightarrow> path \<Rightarrow> fs \<Rightarrow> unit result" where
  "move_staged pr cfg source destination fs =
     (if overwrite cfg then replace_atomic pr fs source destination
      else move_atomic pr fs source destination)"

definition publish :: "proc \<Rightarrow> config \<Rightarrow> path \<Rightarrow> path \<Rightarrow> fs \<Rightarrow> unit result" where
  "publish pr cfg source destination fs =
     (case move_staged pr cfg source destination fs of
        (Inl e, fs1) \<Rightarrow> (Inl e, fs1)
      | (Inr _, fs1) \<Rightarrow>
         set_properties pr fs1 destination (file_perms cfg) (user cfg) (group_name cfg))"

text \<open>
  Leaving the \<^verbatim>\<open>with\<close> statement: an exception of the caller's block is thrown into the
  generator at the \<^verbatim>\<open>yield\<close> and skips the publish; either way the
  \<^verbatim>\<open>TemporaryDirectory\<close> block is left and cleans up, and an error of the clean-up
  replaces the pending one.
\<close>

definition writer_cm_exit ::
  "proc \<Rightarrow> config \<Rightarrow> path \<Rightarrow> path \<Rightarrow> path \<Rightarrow> error option \<Rightarrow> fs \<Rightarrow> unit result" where
  "writer_cm_exit pr cfg temp_dir source destination exc fs =
     (case (case exc of Some e \<Rightarrow> (Inl e, fs) | None \<Rightarrow> publish pr cfg source destination fs) of
        (r, fs1) \<Rightarrow>
          (case cleanup pr fs1 temp_dir of
             (Inl e, fs2) \<Rightarrow> (Inl e, fs2)
           | (Inr _, fs2) \<Rightarrow> (r, fs2)))"

text \<open>
  The caller's block: it may write a file at the yielded path (created with
  \<^verbatim>\<open>0o666 & ~umask\<close> in the temporary directory), and it may then raise.
\<close>

record caller =
  writes :: "string option"
  raises :: "error option"

definition run_caller :: "proc \<Rightarrow> caller \<Rightarrow> path \<Rightarrow> fs \<Rightarrow> error option \<times> fs" where
  "run_caller pr body source fs =
     (raises body,
      case writes body of
        None \<Rightarrow> fs
      | Some c \<Rightarrow>
         fs(source \<mapsto> File c (created pr fs (butlast source) False (438 AND NOT (umask pr)))))"

text \<open>The whole statement \<^verbatim>\<open>with writer_cm(destination, ...) as temp: body\<close>.\<close>

definition writer_cm :: "proc \<Rightarrow> config \<Rightarrow> path \<Rightarrow> string \<Rightarrow> caller \<Rightarrow> fs \<Rightarrow> unit result" where
  "writer_cm pr cfg parent name body fs =
     (case writer_cm_enter pr cfg parent name fs of
        (Inl e, fs2) \<Rightarrow> (Inl e, fs2)
      | (Inr (temp_dir, source), fs2) \<Rightarrow>
         (case run_caller pr body source fs2 of
            (exc, fs3) \<Rightarrow> writer_cm_exit pr cfg temp_dir source (parent @ [name]) exc fs3))"

section \<open>Predicates used in the statements\<close>

text \<open>
  A filesystem is a tree: every entry below the root lies in a directory.
\<close>

definition wf_fs :: "fs \<Rightarrow> bool" where
  "wf_fs fs = (\<forall>p c. fs (p @ [c]) \<noteq> None \<longrightarrow> (\<exists>m. fs p = Some (Dir m)))"

text \<open>
  When the ownership part of \<^verbatim>\<open>_set_properties\<close> goes through for an entry that
  belongs to the process: no name is unknown and the kernel allows the change.
\<close>

definition ownership_ok :: "proc \<Rightarrow> string option \<Rightarrow> string option \<Rightarrow> bool" where
  "ownership_ok pr u g =
     ((u = None \<and> g = None) \<or>
      (unknown (passwd pr) u = None \<and> unknown (group_db pr) g = None \<and>
       chown_allowed pr (euser pr) u g))"

text \<open>
  A new directory carries the permission bits \<open>dp\<close>: all twelve of them, or all but the
  set-group-ID bit when the process is not privileged (the kernel turns that bit off for
  a process that is not in the directory's group).
\<close>

definition carries :: "proc \<Rightarrow> int \<Rightarrow> meta \<Rightarrow> bool" where
  "carries pr dp m = (mode m = dp AND 4095 \<or> (\<not> privileged pr \<and> mode m = dp AND 3071))"

text \<open>The owner and the group are the configured ones, where configured.\<close>

definition owned_as :: "string option \<Rightarrow> string option \<Rightarrow> meta \<Rightarrow> bool" where
  "owned_as u g m = ((\<forall>a. u = Some a \<longrightarrow> owner m = a) \<and> (\<forall>a. g = Some a \<longrightarrow> grp m = a))"

section \<open>Example inputs\<close>

text \<open>
  An ordinary user with umask \<^verbatim>\<open>0o022\<close> who is also in the group \<^verbatim>\<open>dev\<close>, and a filesystem that holds the root directory
  (\<^verbatim>\<open>0o755\<close>, owned by root) and a world-writable \<^verbatim>\<open>/tmp\<close>.
\<close>

definition alice :: proc where
  "alice = \<lparr>euser = ''alice'', egroup = ''staff'', groups = [''dev''], privileged = False,
            umask = 18, passwd = [''root'', ''alice''], group_db = [''root'', ''staff'', ''dev''],
            rand_name = (\<lambda>_. ''k3x'')\<rparr>"

definition fs_tmp :: fs where
  "fs_tmp = [[] \<mapsto> Dir \<lparr>mode = 493, owner = ''root'', grp = ''root''\<rparr>,
             [''tmp''] \<mapsto> Dir \<lparr>mode = 511, owner = ''root'', grp = ''root''\<rparr>]"

text \<open>The same filesystem with a file of root's at \<^verbatim>\<open>/tmp/file.txt\<close>.\<close>

definition fs_old :: fs where
  "fs_old = fs_tmp([''tmp'', ''file.txt''] \<mapsto>
              File ''old'' \<lparr>mode = 420, owner = ''root'', grp = ''root''\<rparr>)"


section \<open>Properties of the primitives and of the phases\<close>

lemmas eval_defs =
  writer_cm_def writer_cm_enter_def writer_cm_exit_def run_caller_def publish_def move_staged_def
  create_parent_def suppress_def set_properties_def mkdir_def os_mkdir_def chmod_def chown_def
  os_chown_def chown_allowed_def unknown_def mkdtemp_def TMP_MAX_def candidate_def cleanup_def
  replace_atomic_def move_atomic_def os_link_def os_unlink_def writable_dir_def dir_check_def
  access_def perm_bits_def default_config_def created_def chmod_mode_def in_group_def
  sticky_ok_def os_rename_def sync_directory_def drop_set_id_def

lemma mkdtemp_from_step:
  "0 < n \<Longrightarrow> mkdtemp_from pr fs dir pre suf seq n =
     (case os_mkdir pr fs (candidate pr dir pre suf seq) 448 of
        (Inl e, fs') \<Rightarrow>
          if name_taken e then mkdtemp_from pr fs dir pre suf (Suc seq) (n - 1) else (Inl e, fs')
      | (Inr _, fs') \<Rightarrow> (Inr (candidate pr dir pre suf seq), fs'))"
  by (cases n) (auto split: prod.splits sum.splits)

lemma walk_snoc:
  "walk pr fs cur (cs @ [c]) =
     (case walk pr fs cur cs of Some e \<Rightarrow> Some e | None \<Rightarrow> dir_check pr fs (cur @ cs))"
  by (induction cs arbitrary: cur) (auto split: option.splits)

lemma walk_cong:
  "(\<And>k. k < length cs \<Longrightarrow> fs' (cur @ take k cs) = fs (cur @ take k cs)) \<Longrightarrow>
   walk pr fs' cur cs = walk pr fs cur cs"
proof (induction cs arbitrary: cur)
  case Nil
  show ?case by simp
next
  case (Cons c cs)
  have here: "fs' cur = fs cur"
    using Cons.prems [of 0] by simp
  have "\<And>k. k < length cs \<Longrightarrow> fs' ((cur @ [c]) @ take k cs) = fs ((cur @ [c]) @ take k cs)"
    using Cons.prems [of "Suc _"] by simp
  then have "walk pr fs' (cur @ [c]) cs = walk pr fs (cur @ [c]) cs"
    by (rule Cons.IH)
  moreover have "dir_check pr fs' cur = dir_check pr fs cur"
    using here by (simp add: dir_check_def)
  ultimately show ?case
    by (simp split: option.splits)
qed

lemma walk_agree:
  assumes "\<And>q. strict_prefix q p \<Longrightarrow> fs' q = fs q"
  shows "walk pr fs' [] p = walk pr fs [] p"
proof (rule walk_cong)
  fix k assume "k < length p"
  then have "strict_prefix (take k p) p"
    by (auto simp: strict_prefix_def take_is_prefix dest: arg_cong [where f = length])
  then show "fs' ([] @ take k p) = fs ([] @ take k p)"
    using assms by simp
qed


subsection \<open>What each primitive changes\<close>

lemma os_mkdir_cases:
  assumes "os_mkdir pr fs p md = (r, fs')"
  shows "(\<exists>e. r = Inl e \<and> fs' = fs) \<or>
         (r = Inr () \<and> fs p = None \<and> walk pr fs [] p = None \<and> writable_dir pr fs (butlast p) \<and>
          fs' = fs(p \<mapsto> Dir (created pr fs (butlast p) True md)))"
  using assms by (auto simp: os_mkdir_def split: option.splits if_splits)

lemma chmod_cases:
  assumes "chmod pr fs p md = (r, fs')"
  shows "(\<exists>e. r = Inl e \<and> fs' = fs) \<or>
         (\<exists>n. r = Inr () \<and> fs p = Some n \<and>
              fs' = fs(p \<mapsto> update_meta (\<lambda>m. m\<lparr>mode := chmod_mode pr m md\<rparr>) n))"
  using assms by (auto simp: chmod_def split: option.splits if_splits)

lemma chown_cases:
  assumes "chown pr fs p u g = (r, fs')"
  shows "(\<exists>e. r = Inl e \<and> fs' = fs) \<or>
         (\<exists>n. r = Inr () \<and> fs p = Some n \<and> (u \<noteq> None \<or> g \<noteq> None) \<and>
              unknown (passwd pr) u = None \<and> unknown (group_db pr) g = None \<and>
              chown_allowed pr (owner (meta n)) u g \<and>
              fs' = fs(p \<mapsto> chown_node u g n))"
  using assms by (auto simp: chown_def os_chown_def split: option.splits if_splits)

lemma os_rename_cases:
  assumes "os_rename pr fs src dst = (r, fs')"
  shows "(\<exists>e. r = Inl e \<and> fs' = fs) \<or>
         (\<exists>n. r = Inr () \<and> fs src = Some n \<and> fs' = (fs(src := None))(dst \<mapsto> n))"
  using assms by (auto simp: os_rename_def split: option.splits if_splits node.splits)

lemma sync_directory_same:
  assumes "sync_directory pr fs d = (r, fs')"
  shows "fs' = fs"
  using assms by (auto simp: sync_directory_def split: option.splits if_splits)

lemma replace_atomic_cases:
  assumes "replace_atomic pr fs src dst = (r, fs')"
  shows "(\<exists>e. r = Inl e \<and> fs' = fs) \<or>
         (\<exists>n. fs src = Some n \<and> fs' = (fs(src := None))(dst \<mapsto> n))"
proof -
  obtain r1 fs1 where rn: "os_rename pr fs src dst = (r1, fs1)"
    by (cases "os_rename pr fs src dst")
  show ?thesis
  proof (cases r1)
    case (Inl e)
    with rn assms os_rename_cases [OF rn] show ?thesis
      by (auto simp: replace_atomic_def)
  next
    case (Inr u)
    with rn assms have "sync_directory pr fs1 (butlast dst) = (r, fs')"
      by (simp add: replace_atomic_def)
    from sync_directory_same [OF this] os_rename_cases [OF rn] Inr show ?thesis
      by auto
  qed
qed

lemma os_link_cases:
  assumes "os_link pr fs src dst = (r, fs')"
  shows "(\<exists>e. r = Inl e \<and> fs' = fs) \<or>
         (\<exists>c m. r = Inr () \<and> fs src = Some (File c m) \<and> fs dst = None \<and> fs' = fs(dst \<mapsto> File c m))"
  using assms by (auto simp: os_link_def split: option.splits if_splits node.splits)

lemma os_unlink_cases:
  assumes "os_unlink pr fs p = (r, fs')"
  shows "(\<exists>e. r = Inl e \<and> fs' = fs) \<or> (r = Inr () \<and> fs' = fs(p := None))"
  using assms by (auto simp: os_unlink_def split: option.splits if_splits node.splits)

lemma move_atomic_cases:
  assumes "move_atomic pr fs src dst = (r, fs')"
  shows "(\<exists>e. r = Inl e \<and> fs' = fs) \<or>
         (\<exists>c m. fs src = Some (File c m) \<and> fs dst = None \<and>
            ((\<exists>e. r = Inl e \<and> fs' = fs(dst \<mapsto> File c m)) \<or>
             fs' = (fs(dst \<mapsto> File c m))(src := None)))"
proof -
  obtain r1 fs1 where l: "os_link pr fs src dst = (r1, fs1)"
    by (cases "os_link pr fs src dst")
  show ?thesis
  proof (cases r1)
    case (Inl e)
    with l assms os_link_cases [OF l] show ?thesis
      by (auto simp: move_atomic_def)
  next
    case (Inr u1)
    with os_link_cases [OF l] obtain c m where
      lk: "fs src = Some (File c m)" "fs dst = None" "fs1 = fs(dst \<mapsto> File c m)"
      by auto
    obtain r2 fs2 where ul: "os_unlink pr fs1 src = (r2, fs2)"
      by (cases "os_unlink pr fs1 src")
    show ?thesis
    proof (cases r2)
      case (Inl e)
      with l Inr ul assms os_unlink_cases [OF ul] lk show ?thesis
        by (auto simp: move_atomic_def)
    next
      case r2: (Inr u2)
      with os_unlink_cases [OF ul] have fs2: "fs2 = fs1(src := None)"
        by auto
      obtain r3 fs3 where s1: "sync_directory pr fs2 (butlast dst) = (r3, fs3)"
        by (cases "sync_directory pr fs2 (butlast dst)")
      from sync_directory_same [OF s1] have fs3: "fs3 = fs2" .
      have "fs' = fs2"
      proof (cases r3)
        case (Inl e)
        with l Inr ul r2 s1 assms fs3 show ?thesis
          by (simp add: move_atomic_def)
      next
        case r3: (Inr u3)
        show ?thesis
        proof (cases "butlast src \<noteq> butlast dst")
          case True
          with l Inr ul r2 s1 r3 assms have "sync_directory pr fs3 (butlast src) = (r, fs')"
            by (simp add: move_atomic_def)
          from sync_directory_same [OF this] fs3 show ?thesis by simp
        next
          case False
          with l Inr ul r2 s1 r3 assms fs3 show ?thesis
            by (simp add: move_atomic_def)
        qed
      qed
      with fs2 lk show ?thesis
        by auto
    qed
  qed
qed

lemma cleanup_cases:
  assumes "cleanup pr fs d = (r, fs')"
  shows "(\<exists>e. r = Inl e \<and> fs' = fs) \<or> (r = Inr () \<and> fs' = (\<lambda>q. if prefix d q then None else fs q))"
  using assms by (auto simp: cleanup_def split: option.splits if_splits)


lemma meta_update_meta [simp]: "meta (update_meta f n) = f (meta n)"
  by (cases n) simp_all

lemma update_meta_twice [simp]: "update_meta f (update_meta g n) = update_meta (\<lambda>m. f (g m)) n"
  by (cases n) simp_all

lemma update_meta_Dir_iff [simp]: "update_meta f n = Dir m \<longleftrightarrow> (\<exists>m0. n = Dir m0 \<and> m = f m0)"
  by (cases n) auto

lemma update_meta_File_iff [simp]:
  "update_meta f n = File c m \<longleftrightarrow> (\<exists>m0. n = File c m0 \<and> m = f m0)"
  by (cases n) auto

lemma owner_chown_node [simp]:
  "owner (meta (chown_node u g n)) = (case u of None \<Rightarrow> owner (meta n) | Some a \<Rightarrow> a)"
  by (cases n) (simp_all split: option.splits)

lemma grp_chown_node [simp]:
  "grp (meta (chown_node u g n)) = (case g of None \<Rightarrow> grp (meta n) | Some a \<Rightarrow> a)"
  by (cases n) (simp_all split: option.splits)

lemma chown_node_Dir [simp]:
  "chown_node u g (Dir m) = Dir m' \<longleftrightarrow>
     m' = m\<lparr>owner := (case u of None \<Rightarrow> owner m | Some a \<Rightarrow> a),
             grp := (case g of None \<Rightarrow> grp m | Some a \<Rightarrow> a)\<rparr>"
  by auto

lemma owner_created [simp]: "owner (created pr fs d b md) = euser pr"
  by (simp add: created_def split: option.splits node.splits)

lemma set_properties_frame:
  assumes "set_properties pr fs p md u g = (r, fs')" and "q \<noteq> p"
  shows "fs' q = fs q"
  using assms
  by (auto simp: set_properties_def split: prod.splits sum.splits if_splits
      dest!: chmod_cases chown_cases)


lemma walk_upd:
  "\<not> strict_prefix q p \<Longrightarrow> walk pr (fs(q := x)) [] p = walk pr fs [] p"
  by (rule walk_agree) auto

lemma set_properties_own:
  assumes "walk pr fs [] p = None" and "fs p = Some n" and "owner (meta n) = euser pr"
  shows "set_properties pr fs p md u g =
     (if md < - 2147483648 \<or> 2147483648 \<le> md then (Inl OverflowError, fs)
      else if u = None \<and> g = None then (Inr (), fs(p \<mapsto> set_node pr md u g n))
      else case unknown (passwd pr) u of
        Some a \<Rightarrow> (Inl (LookupError (''no such user: '' @ a)),
                   fs(p \<mapsto> update_meta (\<lambda>m. m\<lparr>mode := chmod_mode pr m md\<rparr>) n))
      | None \<Rightarrow>
         (case unknown (group_db pr) g of
            Some a \<Rightarrow> (Inl (LookupError (''no such group: '' @ a)),
                       fs(p \<mapsto> update_meta (\<lambda>m. m\<lparr>mode := chmod_mode pr m md\<rparr>) n))
          | None \<Rightarrow>
             if chown_allowed pr (euser pr) u g
             then (Inr (), fs(p \<mapsto> set_node pr md u g n))
             else (Inl (OSError PermissionError p None),
                   fs(p \<mapsto> update_meta (\<lambda>m. m\<lparr>mode := chmod_mode pr m md\<rparr>) n))))"
proof -
  let ?fs1 = "fs(p \<mapsto> update_meta (\<lambda>m. m\<lparr>mode := chmod_mode pr m md\<rparr>) n)"
  have w1: "walk pr ?fs1 [] p = None"
    using assms(1) by (simp add: walk_upd)
  show ?thesis
  proof (cases "md < - 2147483648 \<or> 2147483648 \<le> md")
    case True
    then show ?thesis
      by (auto simp: set_properties_def chmod_def)
  next
    case False
    then have c: "chmod pr fs p md = (Inr (), ?fs1)"
      using assms by (simp add: chmod_def)
    show ?thesis
    proof (cases "u = None \<and> g = None")
      case True
      with False c show ?thesis
        by (simp add: set_properties_def set_node_def)
    next
      case ug: False
      have "chown pr ?fs1 p u g =
        (case unknown (passwd pr) u of
           Some a \<Rightarrow> (Inl (LookupError (''no such user: '' @ a)), ?fs1)
         | None \<Rightarrow>
            (case unknown (group_db pr) g of
               Some a \<Rightarrow> (Inl (LookupError (''no such group: '' @ a)), ?fs1)
             | None \<Rightarrow>
                if chown_allowed pr (euser pr) u g
                then (Inr (), fs(p \<mapsto> set_node pr md u g n))
                else (Inl (OSError PermissionError p None), ?fs1)))"
        using ug w1 assms(3)
        by (auto simp: chown_def os_chown_def set_node_def split: option.splits)
      with False c ug show ?thesis
        by (auto simp: set_properties_def)
    qed
  qed
qed


subsection \<open>Provisioning\<close>

lemma create_parent_cases:
  assumes "create_parent pr cfg fs p = (r, fs')"
  shows "fs' = fs \<or>
    (fs p = None \<and> walk pr fs [] p = None \<and> writable_dir pr fs (butlast p) \<and>
     (\<exists>m. fs' = fs(p \<mapsto> Dir m) \<and>
          (r = Inr () \<longrightarrow> carries pr (dir_perms cfg) m \<and>
             (ownership_ok pr (user cfg) (group_name cfg) \<longrightarrow>
                owned_as (user cfg) (group_name cfg) m))))"
proof -
  obtain r1 fs1 where mk: "mkdir pr fs p = (r1, fs1)"
    by (cases "mkdir pr fs p")
  let ?m0 = "created pr fs (butlast p) True (511 AND NOT (umask pr))"
  from mk have "(\<exists>e. r1 = Inl e \<and> fs1 = fs) \<or>
         (r1 = Inr () \<and> fs p = None \<and> walk pr fs [] p = None \<and> writable_dir pr fs (butlast p) \<and>
          fs1 = fs(p \<mapsto> Dir ?m0))"
    unfolding mkdir_def by (rule os_mkdir_cases)
  then show ?thesis
  proof
    assume "\<exists>e. r1 = Inl e \<and> fs1 = fs"
    with mk assms have "fs' = fs"
      by (auto simp: create_parent_def suppress_def split: if_splits)
    then show ?thesis ..
  next
    assume ok: "r1 = Inr () \<and> fs p = None \<and> walk pr fs [] p = None \<and>
      writable_dir pr fs (butlast p) \<and> fs1 = fs(p \<mapsto> Dir ?m0)"
    then have w1: "walk pr fs1 [] p = None" and at: "fs1 p = Some (Dir ?m0)"
      by (simp_all add: walk_upd)
    have own: "owner (meta (Dir ?m0)) = euser pr"
      by simp
    note sp = set_properties_own [OF w1 at own, of "dir_perms cfg" "user cfg" "group_name cfg"]
    have res: "(r, fs') = suppress (set_properties pr fs1 p (dir_perms cfg) (user cfg) (group_name cfg))"
      using assms mk ok by (simp add: create_parent_def)
    have "\<exists>m. fs' = fs(p \<mapsto> Dir m) \<and>
          (r = Inr () \<longrightarrow> carries pr (dir_perms cfg) m \<and>
             (ownership_ok pr (user cfg) (group_name cfg) \<longrightarrow>
                owned_as (user cfg) (group_name cfg) m))"
      using res ok unfolding sp
      by (auto simp: suppress_def set_node_def chmod_mode_def carries_def owned_as_def
          ownership_ok_def split: if_splits option.splits)
    with ok show ?thesis
      by blast
  qed
qed


lemma provision_preserves:
  assumes "provision pr cfg parent idxs fs = (r, fs1)" and "fs q = Some n"
  shows "fs1 q = Some n"
  using assms
proof (induction idxs arbitrary: fs)
  case Nil
  then show ?case by simp
next
  case (Cons idx idxs)
  obtain r0 fs0 where cp: "create_parent pr cfg fs (take idx parent) = (r0, fs0)"
    by (cases "create_parent pr cfg fs (take idx parent)")
  from create_parent_cases [OF cp] Cons.prems(2) have q: "fs0 q = Some n"
    by auto
  show ?case
  proof (cases r0)
    case (Inl e)
    with cp Cons.prems(1) q show ?thesis by simp
  next
    case (Inr u)
    with cp Cons.prems(1) have "provision pr cfg parent idxs fs0 = (r, fs1)"
      by simp
    from Cons.IH [OF this q] show ?thesis .
  qed
qed

lemma provision_only_parts:
  assumes "provision pr cfg parent idxs fs = (r, fs1)" and "fs1 q \<noteq> fs q"
  shows "\<exists>idx \<in> set idxs. q = take idx parent"
  using assms
proof (induction idxs arbitrary: fs)
  case Nil
  then show ?case by simp
next
  case (Cons idx idxs)
  obtain r0 fs0 where cp: "create_parent pr cfg fs (take idx parent) = (r0, fs0)"
    by (cases "create_parent pr cfg fs (take idx parent)")
  from create_parent_cases [OF cp] have step: "fs0 q \<noteq> fs q \<Longrightarrow> q = take idx parent"
    by (auto split: if_splits)
  show ?case
  proof (cases r0)
    case (Inl e)
    with cp Cons.prems step show ?thesis by auto
  next
    case (Inr u)
    with cp Cons.prems(1) have rest: "provision pr cfg parent idxs fs0 = (r, fs1)"
      by simp
    show ?thesis
    proof (cases "fs1 q = fs0 q")
      case True
      with Cons.prems(2) step show ?thesis by auto
    next
      case False
      from Cons.IH [OF rest False] show ?thesis by auto
    qed
  qed
qed


lemma provision_wf:
  assumes "provision pr cfg parent idxs fs = (r, fs1)" and "wf_fs fs"
  shows "wf_fs fs1"
  using assms
proof (induction idxs arbitrary: fs)
  case Nil
  then show ?case by simp
next
  case (Cons idx idxs)
  obtain r0 fs0 where cp: "create_parent pr cfg fs (take idx parent) = (r0, fs0)"
    by (cases "create_parent pr cfg fs (take idx parent)")
  have wf0: "wf_fs fs0"
    using create_parent_cases [OF cp]
  proof
    assume "fs0 = fs"
    with Cons.prems(2) show ?thesis by simp
  next
    let ?p = "take idx parent"
    assume new: "fs ?p = None \<and> walk pr fs [] ?p = None \<and> writable_dir pr fs (butlast ?p) \<and>
      (\<exists>m. fs0 = fs(?p \<mapsto> Dir m) \<and>
          (r0 = Inr () \<longrightarrow> carries pr (dir_perms cfg) m \<and>
             (ownership_ok pr (user cfg) (group_name cfg) \<longrightarrow>
                owned_as (user cfg) (group_name cfg) m)))"
    then obtain m where fs0: "fs0 = fs(?p \<mapsto> Dir m)" and none: "fs ?p = None"
      and wr: "writable_dir pr fs (butlast ?p)"
      by blast
    from wr obtain md where par: "fs (butlast ?p) = Some (Dir md)"
      by (auto simp: writable_dir_def split: option.splits node.splits)
    show ?thesis
      unfolding wf_fs_def
    proof (intro allI impI)
      fix p c assume ex: "fs0 (p @ [c]) \<noteq> None"
      show "\<exists>m. fs0 p = Some (Dir m)"
      proof (cases "p @ [c] = ?p")
        case True
        then have "butlast ?p = p"
          by (metis butlast_snoc)
        with par fs0 show ?thesis by auto
      next
        case False
        with ex fs0 have "fs (p @ [c]) \<noteq> None" by simp
        with Cons.prems(2) obtain m' where "fs p = Some (Dir m')"
          unfolding wf_fs_def by blast
        with fs0 show ?thesis by auto
      qed
    qed
  qed
  show ?case
  proof (cases r0)
    case (Inl e)
    with cp Cons.prems(1) wf0 show ?thesis by simp
  next
    case (Inr u)
    with cp Cons.prems(1) have "provision pr cfg parent idxs fs0 = (r, fs1)"
      by simp
    from Cons.IH [OF this wf0] show ?thesis .
  qed
qed


subsection \<open>The temporary directory\<close>

lemma butlast_candidate [simp]: "butlast (candidate pr dir pre suf k) = dir"
  by (simp add: candidate_def)

lemma mkdtemp_from_cases:
  assumes "mkdtemp_from pr fs dir pre suf seq n = (r, fs2)"
  shows "(\<exists>e. r = Inl e \<and> fs2 = fs) \<or>
         (\<exists>k. r = Inr (candidate pr dir pre suf k) \<and> fs (candidate pr dir pre suf k) = None \<and>
              walk pr fs [] (candidate pr dir pre suf k) = None \<and> writable_dir pr fs dir \<and>
              fs2 = fs(candidate pr dir pre suf k \<mapsto> Dir (created pr fs dir True 448)))"
  using assms
proof (induction n arbitrary: seq)
  case 0
  then show ?case by auto
next
  case (Suc n)
  obtain r0 fs0 where mk: "os_mkdir pr fs (candidate pr dir pre suf seq) 448 = (r0, fs0)"
    by (cases "os_mkdir pr fs (candidate pr dir pre suf seq) 448")
  show ?case
  proof (cases r0)
    case (Inl e)
    with os_mkdir_cases [OF mk] have same: "fs0 = fs" by auto
    show ?thesis
    proof (cases "name_taken e")
      case True
      with mk Inl Suc.prems have "mkdtemp_from pr fs dir pre suf (Suc seq) n = (r, fs2)"
        by simp
      from Suc.IH [OF this] show ?thesis .
    next
      case False
      with mk Inl Suc.prems same show ?thesis by auto
    qed
  next
    case (Inr u)
    with mk Suc.prems have "r = Inr (candidate pr dir pre suf seq)" and "fs2 = fs0"
      by auto
    with os_mkdir_cases [OF mk] Inr show ?thesis
      by auto
  qed
qed

lemma writer_cm_enter_ok:
  assumes "writer_cm_enter pr cfg parent name fs = (Inr (td, src), fs2)"
  shows "\<exists>fs1 k. provision pr cfg parent [0..<Suc (length parent)] fs = (Inr (), fs1) \<and>
           td = parent @ [name @ rand_name pr k @ ''.tmp''] \<and> src = td @ [name] \<and>
           fs1 td = None \<and> walk pr fs1 [] td = None \<and> writable_dir pr fs1 parent \<and>
           fs2 = fs1(td \<mapsto> Dir (created pr fs1 parent True 448))"
proof -
  obtain r1 fs1 where pv: "provision pr cfg parent [0..<Suc (length parent)] fs = (r1, fs1)"
    by (cases "provision pr cfg parent [0..<Suc (length parent)] fs")
  with assms have r1: "r1 = Inr ()"
    by (cases r1) (auto simp: writer_cm_enter_def)
  obtain r2 fs2' where mt: "mkdtemp_from pr fs1 parent name ''.tmp'' 0 TMP_MAX = (r2, fs2')"
    by (cases "mkdtemp_from pr fs1 parent name ''.tmp'' 0 TMP_MAX")
  with assms pv r1 have r2: "r2 = Inr td" "fs2' = fs2" "src = td @ [name]"
    by (cases r2; auto simp: writer_cm_enter_def mkdtemp_def simp del: upt_Suc)+
  from mkdtemp_from_cases [OF mt] r2 pv r1 show ?thesis
    by (auto simp: candidate_def simp del: upt_Suc)
qed

lemma writer_cm_enter_fail:
  assumes "writer_cm_enter pr cfg parent name fs = (Inl e, fs2)"
  shows "\<exists>r. provision pr cfg parent [0..<Suc (length parent)] fs = (r, fs2)"
proof -
  obtain r1 fs1 where pv: "provision pr cfg parent [0..<Suc (length parent)] fs = (r1, fs1)"
    by (cases "provision pr cfg parent [0..<Suc (length parent)] fs")
  show ?thesis
  proof (cases r1)
    case (Inl e1)
    with pv assms show ?thesis
      by (auto simp: writer_cm_enter_def simp del: upt_Suc)
  next
    case (Inr u)
    obtain r2 fs2' where mt: "mkdtemp_from pr fs1 parent name ''.tmp'' 0 TMP_MAX = (r2, fs2')"
      by (cases "mkdtemp_from pr fs1 parent name ''.tmp'' 0 TMP_MAX")
    with assms pv Inr have "fs2' = fs2" and "\<exists>e. r2 = Inl e"
      by (cases r2; auto simp: writer_cm_enter_def mkdtemp_def simp del: upt_Suc)+
    with mkdtemp_from_cases [OF mt] pv show ?thesis
      by auto
  qed
qed


subsection \<open>After the yield\<close>

lemma walk_sibling:
  assumes "walk pr fs1 [] (parent @ [t]) = None"
    and "\<And>q. prefix q parent \<Longrightarrow> fs3 q = fs1 q"
  shows "walk pr fs3 [] (parent @ [a]) = None"
proof -
  from assms(1) have w: "walk pr fs1 [] parent = None" and d: "dir_check pr fs1 parent = None"
    by (auto simp: walk_snoc split: option.splits)
  have "walk pr fs3 [] parent = walk pr fs1 [] parent"
    by (rule walk_agree) (simp add: assms(2) strict_prefix_def)
  moreover have "dir_check pr fs3 parent = dir_check pr fs1 parent"
    by (simp add: dir_check_def assms(2))
  ultimately show ?thesis
    using w d by (simp add: walk_snoc)
qed

lemma own_dir_access:
  "access pr (created pr fs d True 448) 1"
  "access pr (created pr fs d True 448) 3"
  "access pr (created pr fs d True 448) 4"
  by (simp_all add: access_def perm_bits_def created_def split: option.splits node.splits)

lemma cleanup_staged:
  assumes "walk pr fs1 [] (parent @ [t]) = None" and "writable_dir pr fs1 parent"
    and "\<And>q. prefix q parent \<Longrightarrow> fs4 q = fs1 q"
    and "fs4 (parent @ [t]) = Some n" and "owner (meta n) = euser pr"
  shows "cleanup pr fs4 (parent @ [t]) =
           (Inr (), (\<lambda>q. if prefix (parent @ [t]) q then None else fs4 q))"
proof -
  have "walk pr fs4 [] (parent @ [t]) = None"
    using assms(1,3) by (rule walk_sibling)
  moreover have "writable_dir pr fs4 parent"
    using assms(2) by (simp add: writable_dir_def assms(3))
  moreover have "sticky_ok pr fs4 (parent @ [t])"
    using assms(4,5) by (simp add: sticky_ok_def split: option.splits node.splits)
  ultimately show ?thesis
    by (simp add: cleanup_def)
qed

lemma move_atomic_frame:
  assumes "move_atomic pr fs src dst = (r, fs')" and "q \<noteq> src" and "q \<noteq> dst"
  shows "fs' q = fs q"
  using move_atomic_cases [OF assms(1)] assms(2,3) by auto

lemma replace_atomic_frame:
  assumes "replace_atomic pr fs src dst = (r, fs')" and "q \<noteq> src" and "q \<noteq> dst"
  shows "fs' q = fs q"
  using replace_atomic_cases [OF assms(1)] assms(2,3) by auto

lemma publish_frame:
  assumes "publish pr cfg src dst fs = (r, fs')" and "q \<noteq> src" and "q \<noteq> dst"
  shows "fs' q = fs q"
proof -
  obtain r1 fs1 where mv: "(if overwrite cfg then replace_atomic pr fs src dst
            else move_atomic pr fs src dst) = (r1, fs1)"
    by (cases "if overwrite cfg then replace_atomic pr fs src dst else move_atomic pr fs src dst")
  then have f1: "fs1 q = fs q"
    using assms(2,3) by (auto split: if_splits dest: replace_atomic_frame move_atomic_frame)
  show ?thesis
  proof (cases r1)
    case (Inl e)
    with mv assms(1) f1 show ?thesis
      by (simp add: publish_def move_staged_def)
  next
    case (Inr u)
    with mv assms(1) have
      "set_properties pr fs1 dst (file_perms cfg) (user cfg) (group_name cfg) = (r, fs')"
      by (simp add: publish_def move_staged_def)
    from set_properties_frame [OF this assms(3)] f1 show ?thesis
      by simp
  qed
qed


lemma prefix_parent_neq:
  assumes "prefix q parent"
  shows "q \<noteq> parent @ [a]" and "q \<noteq> parent @ [a, b]"
  using prefix_length_le [OF assms] by auto

lemma run_caller_frame: "q \<noteq> src \<Longrightarrow> snd (run_caller pr body src fs) q = fs q"
  by (simp add: run_caller_def split: option.splits)

lemma run_caller_fst [simp]: "fst (run_caller pr body src fs) = raises body"
  by (simp add: run_caller_def)

lemma writer_cm_skeleton:
  assumes "writer_cm_enter pr cfg parent name fs = (Inr (td, src), fs2)"
  shows "writer_cm pr cfg parent name body fs =
     (case (case raises body of
              Some e \<Rightarrow> (Inl e, snd (run_caller pr body src fs2))
            | None \<Rightarrow> publish pr cfg src (parent @ [name]) (snd (run_caller pr body src fs2))) of
        (r, fs4) \<Rightarrow> (r, (\<lambda>q. if prefix td q then None else fs4 q)))"
proof -
  from writer_cm_enter_ok [OF assms] obtain fs1 k where
    td: "td = parent @ [name @ rand_name pr k @ ''.tmp'']" and src: "src = td @ [name]"
    and w: "walk pr fs1 [] td = None" and wr: "writable_dir pr fs1 parent"
    and fs2: "fs2 = fs1(td \<mapsto> Dir (created pr fs1 parent True 448))"
    by blast
  let ?fs3 = "snd (run_caller pr body src fs2)"
  obtain r fs4 where inner: "(case raises body of
              Some e \<Rightarrow> (Inl e, ?fs3)
            | None \<Rightarrow> publish pr cfg src (parent @ [name]) ?fs3) = (r, fs4)"
    by (cases "case raises body of
              Some e \<Rightarrow> (Inl e, ?fs3)
            | None \<Rightarrow> publish pr cfg src (parent @ [name]) ?fs3")
  have agree: "fs4 q = fs1 q" if "prefix q parent" for q
  proof -
    from prefix_parent_neq [OF that] have ne: "q \<noteq> td" "q \<noteq> src" "q \<noteq> parent @ [name]"
      by (simp_all add: td src)
    then have "?fs3 q = fs1 q"
      by (simp add: run_caller_frame fs2)
    moreover have "fs4 q = ?fs3 q"
      using inner ne by (auto split: option.splits dest: publish_frame)
    ultimately show ?thesis by simp
  qed
  have "td \<noteq> src" "td \<noteq> parent @ [name]"
    by (simp_all add: td src)
  then have "fs4 td = ?fs3 td"
    using inner by (auto split: option.splits dest: publish_frame)
  then have own: "fs4 td = Some (Dir (created pr fs1 parent True 448))"
    by (simp add: run_caller_frame fs2 src)
  have "cleanup pr fs4 td = (Inr (), (\<lambda>q. if prefix td q then None else fs4 q))"
    unfolding td
  proof (rule cleanup_staged)
    show "walk pr fs1 [] (parent @ [name @ rand_name pr k @ ''.tmp'']) = None"
      using w by (simp add: td)
    show "writable_dir pr fs1 parent"
      by (rule wr)
    show "fs4 q = fs1 q" if "prefix q parent" for q
      using that by (rule agree)
    show "fs4 (parent @ [name @ rand_name pr k @ ''.tmp''])
        = Some (Dir (created pr fs1 parent True 448))"
      using own by (simp add: td)
    show "owner (meta (Dir (created pr fs1 parent True 448))) = euser pr"
      by simp
  qed
  moreover have "writer_cm_exit pr cfg td src (parent @ [name]) (raises body) ?fs3 =
    (case cleanup pr fs4 td of (Inl e, fs5) \<Rightarrow> (Inl e, fs5) | (Inr _, fs5) \<Rightarrow> (r, fs5))"
    using inner by (simp add: writer_cm_exit_def)
  ultimately show ?thesis
    using assms inner
    by (simp add: writer_cm_def split_beta prod_eq_iff)
qed

lemma walk_None_dir:
  assumes "walk pr fs cur cs = None" and "k < length cs"
  shows "dir_check pr fs (cur @ take k cs) = None"
  using assms
proof (induction cs arbitrary: cur k)
  case Nil
  then show ?case by simp
next
  case (Cons c cs)
  from Cons.prems(1) have here: "dir_check pr fs cur = None"
    and rest: "walk pr fs (cur @ [c]) cs = None"
    by (auto split: option.splits)
  show ?case
  proof (cases k)
    case 0
    with here show ?thesis by simp
  next
    case (Suc j)
    with Cons.prems(2) have "j < length cs" by simp
    from Cons.IH [OF rest this] Suc show ?thesis by simp
  qed
qed

lemma dir_check_None: "dir_check pr fs d = None \<Longrightarrow> \<exists>m. fs d = Some (Dir m)"
  by (auto simp: dir_check_def split: option.splits node.splits if_splits)

lemma take_neq_snoc: "take k parent \<noteq> parent @ [a]"
proof
  assume "take k parent = parent @ [a]"
  then have "length (take k parent) = length (parent @ [a])" by simp
  then show False by simp
qed

lemma provision_destination:
  assumes "provision pr cfg parent idxs fs = (r, fs1)"
  shows "fs1 (parent @ [a]) = fs (parent @ [a])"
proof (rule ccontr)
  assume "fs1 (parent @ [a]) \<noteq> fs (parent @ [a])"
  from provision_only_parts [OF assms this] obtain idx where "parent @ [a] = take idx parent"
    by auto
  with take_neq_snoc [of idx parent a] show False
    by simp
qed






lemma writer_cm_not_entered:
  assumes "writer_cm_enter pr cfg parent name fs = (Inl e, fs2)"
  shows "writer_cm pr cfg parent name body fs = (Inl e, fs2)"
  using assms by (simp add: writer_cm_def)

lemma staged:
  assumes "writer_cm_enter pr cfg parent name fs = (Inr (td, src), fs2)"
  shows "\<exists>t. td = parent @ [t] \<and> t \<noteq> name \<and> src = td @ [name]"
    and "fs td = None"
    and "fs2 (parent @ [name]) = fs (parent @ [name])"
    and "walk pr (snd (run_caller pr body src fs2)) [] src = None"
    and "walk pr (snd (run_caller pr body src fs2)) [] (parent @ [name]) = None"
    and "wf_fs fs \<Longrightarrow> fs2 src = None"
proof -
  from writer_cm_enter_ok [OF assms] obtain fs1 k where
    pv: "provision pr cfg parent [0..<Suc (length parent)] fs = (Inr (), fs1)"
    and td: "td = parent @ [name @ rand_name pr k @ ''.tmp'']" and src: "src = td @ [name]"
    and none: "fs1 td = None"
    and w: "walk pr fs1 [] td = None" and wr: "writable_dir pr fs1 parent"
    and fs2: "fs2 = fs1(td \<mapsto> Dir (created pr fs1 parent True 448))"
    by blast
  let ?fs3 = "snd (run_caller pr body src fs2)"
  show "\<exists>t. td = parent @ [t] \<and> t \<noteq> name \<and> src = td @ [name]"
    by (simp add: td src)
  show "fs td = None"
  proof (cases "fs td")
    case (Some n)
    from provision_preserves [OF pv Some] none show ?thesis by simp
  qed simp
  have "fs2 (parent @ [name]) = fs1 (parent @ [name])"
    by (simp add: fs2 td)
  also have "\<dots> = fs (parent @ [name])"
    using pv by (rule provision_destination)
  finally show "fs2 (parent @ [name]) = fs (parent @ [name])" .
  have agree: "?fs3 q = fs1 q" if "prefix q parent" for q
    using prefix_parent_neq [OF that] by (simp add: run_caller_frame fs2 td src)
  have wtd: "walk pr ?fs3 [] td = None"
    unfolding td using w agree unfolding td by (rule walk_sibling)
  have "?fs3 td = Some (Dir (created pr fs1 parent True 448))"
    by (simp add: run_caller_frame fs2 src)
  then have "dir_check pr ?fs3 td = None"
    by (simp add: dir_check_def own_dir_access)
  with wtd show "walk pr ?fs3 [] src = None"
    by (simp add: src walk_snoc)
  show "walk pr ?fs3 [] (parent @ [name]) = None"
    using w agree unfolding td by (rule walk_sibling)
  show "fs2 src = None" if "wf_fs fs"
  proof (rule ccontr)
    assume "fs2 src \<noteq> None"
    then have "fs1 (td @ [name]) \<noteq> None"
      by (simp add: fs2 src)
    moreover have "wf_fs fs1"
      using pv that by (rule provision_wf)
    ultimately have "\<exists>m. fs1 td = Some (Dir m)"
      unfolding wf_fs_def by blast
    with none show False by simp
  qed
qed

lemma low_bits [simp]:
  "(x AND 4095) AND 1023 = x AND (1023::int)"
  "(x AND 3071) AND 1023 = x AND (1023::int)"
  "(x AND NOT 3072) AND 1023 = x AND (1023::int)"
  "(x AND NOT 2048) AND 1023 = x AND (1023::int)"
  by (simp_all add: and.assoc)

lemma and_sub: "y AND a = y \<Longrightarrow> (y AND k) AND a = y AND (k::int)"
  by (metis and.assoc and.commute)

lemma small_mask:
  assumes "0 \<le> x" and "x < 1024"
  shows "x AND 1023 = (x::int)"
proof -
  have "x AND mask 10 = take_bit 10 x"
    by (simp add: take_bit_eq_mask)
  also have "\<dots> = x"
    using assms by (simp add: take_bit_int_eq_self)
  finally show ?thesis
    by (simp add: mask_eq_exp_minus_1)
qed

lemma small_fix:
  assumes "0 \<le> x" and "x < 1024"
  shows "x AND 4095 = (x::int)" and "x AND 3071 = x" and "x AND - 3073 = x" and "x AND - 2049 = x"
proof -
  have x: "x = x AND 1023" using small_mask [OF assms] by simp
  have "x AND 4095 = (x AND 1023) AND 4095" using x by simp
  also have "\<dots> = x AND 1023" by (simp add: and.assoc)
  finally show "x AND 4095 = x" using x by simp
  have "x AND 3071 = (x AND 1023) AND 3071" using x by simp
  also have "\<dots> = x AND 1023" by (simp add: and.assoc)
  finally show "x AND 3071 = x" using x by simp
  have "x AND - 3073 = (x AND 1023) AND - 3073" using x by simp
  also have "\<dots> = x AND 1023" by (simp add: and.assoc)
  finally show "x AND - 3073 = x" using x by simp
  have "x AND - 2049 = (x AND 1023) AND - 2049" using x by simp
  also have "\<dots> = x AND 1023" by (simp add: and.assoc)
  finally show "x AND - 2049 = x" using x by simp
qed

lemma chmod_mode_low: "chmod_mode pr m md AND 1023 = md AND 1023"
  by (simp add: chmod_mode_def)

lemma chmod_mode_sub: "chmod_mode pr m md AND (md AND 4095) = chmod_mode pr m md"
  by (simp add: chmod_mode_def and.assoc and.left_commute)

lemma chmod_mode_small: "0 \<le> md \<Longrightarrow> md < 1024 \<Longrightarrow> chmod_mode pr m md = md"
  by (simp add: chmod_mode_def small_fix)

lemma drop_set_id_low: "drop_set_id y AND 1023 = y AND 1023"
  by (simp add: drop_set_id_def and.assoc)

lemma drop_set_id_sub: "y AND a = y \<Longrightarrow> drop_set_id y AND a = drop_set_id y"
  by (simp add: drop_set_id_def and_sub)

lemma drop_set_id_small: "0 \<le> y \<Longrightarrow> y < 1024 \<Longrightarrow> drop_set_id y = y"
  by (simp add: drop_set_id_def small_fix)

text \<open>What \<^verbatim>\<open>_set_properties\<close> makes of a regular file.\<close>

lemma set_node_File:
  "\<exists>m. set_node pr md u g (File c m0) = File c m \<and>
       mode m AND 1023 = md AND 1023 \<and>
       mode m AND (md AND 4095) = mode m \<and>
       (0 \<le> md \<and> md < 1024 \<longrightarrow> mode m = md) \<and>
       owner m = (case u of None \<Rightarrow> owner m0 | Some a \<Rightarrow> a) \<and>
       grp m = (case g of None \<Rightarrow> grp m0 | Some a \<Rightarrow> a)"
proof (cases "u = None \<and> g = None")
  case True
  then show ?thesis
    by (simp add: set_node_def chmod_mode_low chmod_mode_sub chmod_mode_small)
next
  case False
  then have "set_node pr md u g (File c m0) =
      File c (m0\<lparr>mode := drop_set_id (chmod_mode pr m0 md),
                 owner := (case u of None \<Rightarrow> owner m0 | Some a \<Rightarrow> a),
                 grp := (case g of None \<Rightarrow> grp m0 | Some a \<Rightarrow> a)\<rparr>)"
    by (auto simp: set_node_def split: option.splits)
  then show ?thesis
    by (simp add: drop_set_id_low chmod_mode_low drop_set_id_sub chmod_mode_sub
        drop_set_id_small chmod_mode_small)
qed


lemma contents_set_node [simp]: "contents (set_node pr md u g (File c m0)) = c"
  using set_node_File [of pr md u g c m0] by auto





lemma create_parent_mkdir_error:
  assumes "fst (mkdir pr fs p) = Inl e"
  shows "create_parent pr cfg fs p = (if suppressed e then Inr () else Inl e, fs)"
proof -
  have "mkdir pr fs p = (Inl e, snd (mkdir pr fs p))"
    by (metis assms prod.collapse)
  moreover from this have "snd (mkdir pr fs p) = fs"
    unfolding mkdir_def by (auto dest: os_mkdir_cases)
  ultimately have "mkdir pr fs p = (Inl e, fs)"
    by simp
  then show ?thesis
    by (simp add: create_parent_def suppress_def)
qed



lemma walk_NoneI:
  assumes "\<And>k. k < length cs \<Longrightarrow> dir_check pr fs (cur @ take k cs) = None"
  shows "walk pr fs cur cs = None"
  using assms
proof (induction cs arbitrary: cur)
  case Nil
  show ?case by simp
next
  case (Cons c cs)
  have "dir_check pr fs cur = None"
    using Cons.prems [of 0] by simp
  moreover have "walk pr fs (cur @ [c]) cs = None"
  proof (rule Cons.IH)
    fix k assume "k < length cs"
    then show "dir_check pr fs ((cur @ [c]) @ take k cs) = None"
      using Cons.prems [of "Suc k"] by simp
  qed
  ultimately show ?case by simp
qed

lemma walk_take:
  assumes "walk pr fs [] p = None"
  shows "walk pr fs [] (take j p) = None"
proof (rule walk_NoneI)
  fix k assume "k < length (take j p)"
  then have "k < length p" and "take k (take j p) = take k p"
    by (simp_all add: min_def split: if_splits)
  with walk_None_dir [OF assms, of k] show "dir_check pr fs ([] @ take k (take j p)) = None"
    by simp
qed

lemma provision_idle:
  assumes "\<And>idx. idx \<in> set idxs \<Longrightarrow> create_parent pr cfg fs (take idx parent) = (Inr (), fs)"
  shows "provision pr cfg parent idxs fs = (Inr (), fs)"
  using assms by (induction idxs) simp_all

lemma provision_error_not_suppressed:
  assumes "provision pr cfg parent idxs fs = (Inl e, fs1)"
  shows "\<not> suppressed e"
  using assms
proof (induction idxs arbitrary: fs)
  case Nil
  then show ?case by simp
next
  case (Cons idx idxs)
  obtain r0 fs0 where cp: "create_parent pr cfg fs (take idx parent) = (r0, fs0)"
    by (cases "create_parent pr cfg fs (take idx parent)")
  show ?case
  proof (cases r0)
    case (Inl e0)
    with cp Cons.prems have "e0 = e" by simp
    with cp Inl show ?thesis
      by (auto simp: create_parent_def suppress_def split: prod.splits sum.splits if_splits)
  next
    case (Inr u)
    with cp Cons.prems have "provision pr cfg parent idxs fs0 = (Inl e, fs1)"
      by simp
    then show ?thesis by (rule Cons.IH)
  qed
qed

lemma create_parent_existing:
  assumes "walk pr fs [] p = None" and "fs p \<noteq> None"
  shows "create_parent pr cfg fs p = (Inr (), fs)"
  using assms by (auto simp: create_parent_def mkdir_def os_mkdir_def suppress_def)

lemma create_parent_denied:
  assumes "walk pr fs [] p = None" and "fs p = None" and "\<not> writable_dir pr fs (butlast p)"
  shows "create_parent pr cfg fs p = (Inr (), fs)"
  using assms by (auto simp: create_parent_def mkdir_def os_mkdir_def suppress_def)

lemma create_parent_set_properties:
  assumes "fst (mkdir pr fs p) = Inr u"
    and "fst (set_properties pr (snd (mkdir pr fs p)) p (dir_perms cfg) (user cfg) (group_name cfg))
           = Inl e"
  shows "create_parent pr cfg fs p =
           (if suppressed e then Inr () else Inl e,
            snd (set_properties pr (snd (mkdir pr fs p)) p (dir_perms cfg) (user cfg) (group_name cfg)))"
proof -
  have mk: "mkdir pr fs p = (Inr u, snd (mkdir pr fs p))"
    by (metis assms(1) prod.collapse)
  let ?sp = "set_properties pr (snd (mkdir pr fs p)) p (dir_perms cfg) (user cfg) (group_name cfg)"
  have sp: "?sp = (Inl e, snd ?sp)"
    by (metis assms(2) prod.collapse)
  have "create_parent pr cfg fs p = suppress ?sp"
    by (subst create_parent_def, subst mk) simp
  also have "\<dots> = suppress (Inl e, snd ?sp)"
    using sp by simp
  finally show ?thesis
    by (simp add: suppress_def)
qed

section \<open>The claims\<close>

text \<open>
  C3. Whenever the caller's block is entered and raises, the statement raises that very
  error, the destination is what it was before the statement, nothing is left at or
  below the temporary directory, and every ancestor directory is still what it was when
  the block was entered (a directory, whether found or created): nothing is rolled back.
\<close>

theorem caller_error_skips_publish:
  assumes "fst (writer_cm_enter pr cfg parent name fs) = Inr (temp_dir, source)"
    and "raises body = Some e"
  shows "fst (writer_cm pr cfg parent name body fs) = Inl e \<and>
         snd (writer_cm pr cfg parent name body fs) (parent @ [name]) = fs (parent @ [name]) \<and>
         (\<forall>q. prefix temp_dir q \<longrightarrow> snd (writer_cm pr cfg parent name body fs) q = None) \<and>
         (\<forall>k\<le>length parent.
            snd (writer_cm pr cfg parent name body fs) (take k parent)
              = snd (writer_cm_enter pr cfg parent name fs) (take k parent) \<and>
            (\<exists>m. snd (writer_cm pr cfg parent name body fs) (take k parent) = Some (Dir m)))"
proof -
  let ?fs2 = "snd (writer_cm_enter pr cfg parent name fs)"
  have enter: "writer_cm_enter pr cfg parent name fs = (Inr (temp_dir, source), ?fs2)"
    using assms(1) by (simp add: prod_eq_iff)
  from writer_cm_enter_ok [OF enter] obtain fs1 k where
    pv: "provision pr cfg parent [0..<Suc (length parent)] fs = (Inr (), fs1)"
    and td: "temp_dir = parent @ [name @ rand_name pr k @ ''.tmp'']" and src: "source = temp_dir @ [name]"
    and w: "walk pr fs1 [] temp_dir = None"
    and fs2: "?fs2 = fs1(temp_dir \<mapsto> Dir (created pr fs1 parent True 448))"
    by blast
  let ?fs3 = "snd (run_caller pr body source ?fs2)"
  have result: "writer_cm pr cfg parent name body fs =
      (Inl e, (\<lambda>q. if prefix temp_dir q then None else ?fs3 q))"
    using writer_cm_skeleton [OF enter, of body] assms(2) by simp
  have ne: "parent @ [name] \<noteq> temp_dir" "parent @ [name] \<noteq> source"
    "\<not> prefix temp_dir (parent @ [name])"
    by (simp_all add: td src)
  have "?fs3 (parent @ [name]) = fs1 (parent @ [name])"
    using ne by (simp add: run_caller_frame fs2)
  also have "\<dots> = fs (parent @ [name])"
    using pv by (rule provision_destination)
  finally have dest: "snd (writer_cm pr cfg parent name body fs) (parent @ [name]) = fs (parent @ [name])"
    using ne by (simp add: result)
  have anc: "snd (writer_cm pr cfg parent name body fs) (take k' parent) = ?fs2 (take k' parent) \<and>
            (\<exists>m. snd (writer_cm pr cfg parent name body fs) (take k' parent) = Some (Dir m))"
    if "k' \<le> length parent" for k'
  proof -
    let ?a = "take k' parent"
    have pre: "prefix ?a parent"
      by (rule take_is_prefix)
    from prefix_parent_neq [OF pre] have ne': "?a \<noteq> temp_dir" "?a \<noteq> source"
      by (simp_all add: td src)
    have np: "\<not> prefix temp_dir ?a"
      using prefix_length_le [of temp_dir ?a] by (auto simp: td)
    have same: "snd (writer_cm pr cfg parent name body fs) ?a = ?fs2 ?a"
      using ne' np by (simp add: result run_caller_frame)
    have "k' < length temp_dir"
      using that by (simp add: td)
    from walk_None_dir [OF w this] have "dir_check pr fs1 (take k' temp_dir) = None"
      by simp
    moreover have "take k' temp_dir = ?a"
      using that by (simp add: td)
    ultimately obtain m where "fs1 ?a = Some (Dir m)"
      by (auto dest: dir_check_None)
    with same ne' show ?thesis
      by (simp add: fs2)
  qed
  have "fst (writer_cm pr cfg parent name body fs) = Inl e"
    and "\<forall>q. prefix temp_dir q \<longrightarrow> snd (writer_cm pr cfg parent name body fs) q = None"
    by (simp_all add: result)
  with dest anc show ?thesis
    by blast
qed


theorem caller_error_skips_publish_witness:
  "fst (writer_cm_enter alice default_config [''tmp'', ''x''] ''f'' fs_tmp)
     = Inr ([''tmp'', ''x'', ''fk3x.tmp''], [''tmp'', ''x'', ''fk3x.tmp'', ''f'']) \<and>
   raises \<lparr>writes = Some ''par'', raises = Some (Exception ''boom'')\<rparr> = Some (Exception ''boom'') \<and>
   fst (writer_cm alice default_config [''tmp'', ''x''] ''f''
          \<lparr>writes = Some ''par'', raises = Some (Exception ''boom'')\<rparr> fs_tmp)
     = Inl (Exception ''boom'') \<and>
   snd (writer_cm alice default_config [''tmp'', ''x''] ''f''
          \<lparr>writes = Some ''par'', raises = Some (Exception ''boom'')\<rparr> fs_tmp) [''tmp'', ''x'', ''f'']
     = None \<and>
   snd (writer_cm alice default_config [''tmp'', ''x''] ''f''
          \<lparr>writes = Some ''par'', raises = Some (Exception ''boom'')\<rparr> fs_tmp)
       [''tmp'', ''x'', ''fk3x.tmp'', ''f'']
     = None"
proof -
  have enter: "fst (writer_cm_enter alice default_config [''tmp'', ''x''] ''f'' fs_tmp)
     = Inr ([''tmp'', ''x'', ''fk3x.tmp''], [''tmp'', ''x'', ''fk3x.tmp'', ''f''])"
    by (simp add: eval_defs alice_def fs_tmp_def mkdtemp_from_step)
  have raise: "raises \<lparr>writes = Some ''par'', raises = Some (Exception ''boom'')\<rparr>
     = Some (Exception ''boom'')"
    by simp
  from caller_error_skips_publish [OF enter raise] enter raise show ?thesis
    by (simp add: fs_tmp_def)
qed












text \<open>
  C4. On every exit path (the block is never entered, the caller raises, the publish
  fails, or all goes well) the filesystem afterwards holds nothing that was not there
  before except the destination and its ancestor directories; in particular, when a
  temporary directory was created, it was a new name and nothing is left at or below it.
\<close>

theorem no_staging_left:
  "(\<forall>q. snd (writer_cm pr cfg parent name body fs) q \<noteq> None \<longrightarrow>
        fs q \<noteq> None \<or> prefix q (parent @ [name])) \<and>
   (\<forall>temp_dir source.
      fst (writer_cm_enter pr cfg parent name fs) = Inr (temp_dir, source) \<longrightarrow>
      fs temp_dir = None \<and>
      (\<forall>q. prefix temp_dir q \<longrightarrow> snd (writer_cm pr cfg parent name body fs) q = None))"
proof -
  let ?fs2 = "snd (writer_cm_enter pr cfg parent name fs)"
  let ?out = "snd (writer_cm pr cfg parent name body fs)"
  have part: "fs1 q \<noteq> None \<Longrightarrow> fs q \<noteq> None \<or> prefix q (parent @ [name])"
    if "provision pr cfg parent idxs fs = (r, fs1)" for r fs1 q idxs
  proof (cases "fs1 q = fs q")
    case False
    from provision_only_parts [OF that False] obtain idx where "q = take idx parent"
      by blast
    then have "prefix q (parent @ [name])"
      by (simp add: take_is_prefix prefix_prefix)
    then show ?thesis ..
  qed simp
  obtain r2 where enter0: "writer_cm_enter pr cfg parent name fs = (r2, ?fs2)"
    by (cases "writer_cm_enter pr cfg parent name fs") simp
  show ?thesis
  proof (cases r2)
    case (Inl e)
    with enter0 have fail: "writer_cm_enter pr cfg parent name fs = (Inl e, ?fs2)"
      by simp
    from writer_cm_enter_fail [OF fail] obtain r where
      "provision pr cfg parent [0..<Suc (length parent)] fs = (r, ?fs2)"
      by blast
    from part [OF this] have "\<forall>q. ?fs2 q \<noteq> None \<longrightarrow> fs q \<noteq> None \<or> prefix q (parent @ [name])"
      by blast
    moreover have "?out = ?fs2"
      using writer_cm_not_entered [OF fail, of body] by simp
    moreover have "fst (writer_cm_enter pr cfg parent name fs) = Inl e"
      by (metis fail fst_conv)
    ultimately show ?thesis
      by simp
  next
    case (Inr ts)
    obtain td src where ts: "ts = (td, src)" by (cases ts)
    with Inr enter0 have enter: "writer_cm_enter pr cfg parent name fs = (Inr (td, src), ?fs2)"
      by simp
    from writer_cm_enter_ok [OF enter] obtain fs1 k where
      pv: "provision pr cfg parent [0..<Suc (length parent)] fs = (Inr (), fs1)"
      and td: "td = parent @ [name @ rand_name pr k @ ''.tmp'']" and src: "src = td @ [name]"
      and fs2: "?fs2 = fs1(td \<mapsto> Dir (created pr fs1 parent True 448))"
      by blast
    let ?fs3 = "snd (run_caller pr body src ?fs2)"
    obtain r fs4 where inner: "(case raises body of
              Some e \<Rightarrow> (Inl e, ?fs3)
            | None \<Rightarrow> publish pr cfg src (parent @ [name]) ?fs3) = (r, fs4)"
      by (cases "case raises body of
              Some e \<Rightarrow> (Inl e, ?fs3)
            | None \<Rightarrow> publish pr cfg src (parent @ [name]) ?fs3")
    have out: "?out = (\<lambda>q. if prefix td q then None else fs4 q)"
      using writer_cm_skeleton [OF enter, of body] inner by simp
    have frame: "fs q \<noteq> None \<or> prefix q (parent @ [name])" if q: "?out q \<noteq> None" for q
    proof (cases "q = parent @ [name]")
      case True
      then show ?thesis by simp
    next
      case False
      from q out have np: "\<not> prefix td q" and some: "fs4 q \<noteq> None"
        by (auto split: if_splits)
      from np have ne: "q \<noteq> td" "q \<noteq> src"
        by (auto simp: src)
      have "fs4 q = ?fs3 q"
        using inner ne False by (auto split: option.splits dest: publish_frame)
      also have "\<dots> = fs1 q"
        using ne by (simp add: run_caller_frame fs2)
      finally have "fs1 q \<noteq> None"
        using some by simp
      from part [OF pv this] show ?thesis .
    qed
    have gone: "?out q = None" if "prefix td q" for q
      using that out by simp
    have "fst (writer_cm_enter pr cfg parent name fs) = Inr (td, src)"
      by (metis enter fst_conv)
    with frame gone staged(2) [OF enter] show ?thesis
      by auto
  qed
qed

theorem no_staging_left_witness:
  "snd (writer_cm alice default_config [''tmp'', ''x''] ''f''
          \<lparr>writes = Some ''hello'', raises = None\<rparr> fs_tmp) [''tmp'', ''x''] \<noteq> None \<and>
   fs_tmp [''tmp'', ''x''] = None \<and>
   prefix [''tmp'', ''x''] ([''tmp'', ''x''] @ [''f'']) \<and>
   fst (writer_cm_enter alice default_config [''tmp'', ''x''] ''f'' fs_tmp)
     = Inr ([''tmp'', ''x'', ''fk3x.tmp''], [''tmp'', ''x'', ''fk3x.tmp'', ''f'']) \<and>
   prefix [''tmp'', ''x'', ''fk3x.tmp''] [''tmp'', ''x'', ''fk3x.tmp'', ''f''] \<and>
   fs_tmp [''tmp'', ''x'', ''fk3x.tmp''] = None \<and>
   snd (writer_cm alice default_config [''tmp'', ''x''] ''f''
          \<lparr>writes = Some ''hello'', raises = None\<rparr> fs_tmp) [''tmp'', ''x'', ''fk3x.tmp'', ''f''] = None"
proof -
  have some: "snd (writer_cm alice default_config [''tmp'', ''x''] ''f''
          \<lparr>writes = Some ''hello'', raises = None\<rparr> fs_tmp) [''tmp'', ''x''] \<noteq> None"
    by (simp add: eval_defs alice_def fs_tmp_def mkdtemp_from_step)
  have enter: "fst (writer_cm_enter alice default_config [''tmp'', ''x''] ''f'' fs_tmp)
     = Inr ([''tmp'', ''x'', ''fk3x.tmp''], [''tmp'', ''x'', ''fk3x.tmp'', ''f''])"
    by (simp add: eval_defs alice_def fs_tmp_def mkdtemp_from_step)
  have p: "prefix [''tmp'', ''x'', ''fk3x.tmp''] [''tmp'', ''x'', ''fk3x.tmp'', ''f'']"
    by simp
  have n: "fs_tmp [''tmp'', ''x''] = None"
    by (simp add: fs_tmp_def)
  from no_staging_left [of alice default_config "[''tmp'', ''x'']" "''f''"
      "\<lparr>writes = Some ''hello'', raises = None\<rparr>" fs_tmp] some enter p n
  show ?thesis
    by auto
qed




text \<open>
  C9, as stated, fails: not every error of the ancestor loop is suppressed. With the
  root directory not writable by the process and \<^verbatim>\<open>/x\<close> missing, creating \<^verbatim>\<open>/x\<close> is
  denied and the denial is suppressed, but creating \<^verbatim>\<open>/x/y\<close> then raises
  \<^verbatim>\<open>FileNotFoundError\<close>, which leaves the loop: the failure surfaces in the loop, before
  any temporary directory is asked for. Likewise an ancestor that is a regular file makes
  the loop raise \<^verbatim>\<open>NotADirectoryError\<close>.
\<close>

theorem not_all_ancestor_errors_suppressed:
  "fst (mkdir alice fs_tmp [''x'']) = Inl (OSError PermissionError [''x''] None) \<and>
   fst (create_parent alice default_config fs_tmp [''x'']) = Inr () \<and>
   fst (mkdir alice fs_tmp [''x'', ''y'']) = Inl (OSError FileNotFoundError [''x'', ''y''] None) \<and>
   fst (provision alice default_config [''x'', ''y''] [0..<Suc (length [''x'', ''y''])] fs_tmp)
     = Inl (OSError FileNotFoundError [''x'', ''y''] None) \<and>
   fst (writer_cm_enter alice default_config [''x'', ''y''] ''f'' fs_tmp)
     = Inl (OSError FileNotFoundError [''x'', ''y''] None) \<and>
   fst (writer_cm_enter alice default_config [''tmp'', ''file.txt'', ''sub''] ''f'' fs_old)
     = Inl (OSError NotADirectoryError [''tmp'', ''file.txt'', ''sub''] None)"
  by (simp add: eval_defs alice_def fs_tmp_def fs_old_def mkdtemp_from_step)

text \<open>
  C9, amended. In the ancestor loop an error of one of the three classes
  \<^verbatim>\<open>FileExistsError\<close>, \<^verbatim>\<open>IsADirectoryError\<close>, \<^verbatim>\<open>PermissionError\<close> is suppressed,
  whether the creation of the directory or \<^verbatim>\<open>_set_properties\<close> raised it, and the loop
  goes on with the next ancestor; an error of any other class leaves the loop at once
  and is what entering the statement raises, so the loop never raises an error of the
  three classes. When only the destination's parent is missing and the directory that
  should hold it is not writable, the denial is suppressed, nothing is changed, and the
  failure surfaces at the creation of the temporary directory, as \<^verbatim>\<open>FileNotFoundError\<close>.
\<close>

theorem ancestor_errors_suppressed:
  "(\<forall>e fs1. provision pr cfg parent idxs fs = (Inl e, fs1) \<longrightarrow> \<not> suppressed e) \<and>
   (\<forall>e. fst (mkdir pr fs (take idx parent)) = Inl e \<longrightarrow>
        provision pr cfg parent (idx # idxs) fs =
          (if suppressed e then provision pr cfg parent idxs fs else (Inl e, fs))) \<and>
   (\<forall>u e. fst (mkdir pr fs (take idx parent)) = Inr u \<and>
          fst (set_properties pr (snd (mkdir pr fs (take idx parent))) (take idx parent)
                 (dir_perms cfg) (user cfg) (group_name cfg)) = Inl e \<longrightarrow>
        provision pr cfg parent (idx # idxs) fs =
          (if suppressed e
           then provision pr cfg parent idxs
                  (snd (set_properties pr (snd (mkdir pr fs (take idx parent))) (take idx parent)
                          (dir_perms cfg) (user cfg) (group_name cfg)))
           else (Inl e,
                 snd (set_properties pr (snd (mkdir pr fs (take idx parent))) (take idx parent)
                        (dir_perms cfg) (user cfg) (group_name cfg))))) \<and>
   (\<forall>e fs1. provision pr cfg parent [0..<Suc (length parent)] fs = (Inl e, fs1) \<longrightarrow>
        writer_cm_enter pr cfg parent name fs = (Inl e, fs1)) \<and>
   (walk pr fs [] parent = None \<and> fs parent = None \<and> \<not> writable_dir pr fs (butlast parent) \<longrightarrow>
      writer_cm_enter pr cfg parent name fs =
        (Inl (OSError FileNotFoundError (candidate pr parent name ''.tmp'' 0) None), fs))"
proof (intro conjI allI impI)
  fix e assume "fst (mkdir pr fs (take idx parent)) = Inl e"
  then have "create_parent pr cfg fs (take idx parent)
      = (if suppressed e then Inr () else Inl e, fs)"
    by (rule create_parent_mkdir_error)
  then show "provision pr cfg parent (idx # idxs) fs =
          (if suppressed e then provision pr cfg parent idxs fs else (Inl e, fs))"
    by simp
next
  fix u e
  let ?sp = "set_properties pr (snd (mkdir pr fs (take idx parent))) (take idx parent)
                 (dir_perms cfg) (user cfg) (group_name cfg)"
  assume "fst (mkdir pr fs (take idx parent)) = Inr u \<and> fst ?sp = Inl e"
  then have "create_parent pr cfg fs (take idx parent)
      = (if suppressed e then Inr () else Inl e, snd ?sp)"
    by (intro create_parent_set_properties) simp_all
  then show "provision pr cfg parent (idx # idxs) fs =
          (if suppressed e then provision pr cfg parent idxs (snd ?sp) else (Inl e, snd ?sp))"
    by simp
next
  fix e fs1 assume "provision pr cfg parent [0..<Suc (length parent)] fs = (Inl e, fs1)"
  then show "writer_cm_enter pr cfg parent name fs = (Inl e, fs1)"
    by (simp add: writer_cm_enter_def del: upt_Suc)
next
  fix e fs1 assume "provision pr cfg parent idxs fs = (Inl e, fs1)"
  then show "\<not> suppressed e"
    by (rule provision_error_not_suppressed)
next
  assume h: "walk pr fs [] parent = None \<and> fs parent = None \<and> \<not> writable_dir pr fs (butlast parent)"
  have step: "create_parent pr cfg fs (take idx parent) = (Inr (), fs)" for idx
  proof (cases "idx < length parent")
    case True
    from h have "dir_check pr fs ([] @ take idx parent) = None"
      using True by (intro walk_None_dir) simp_all
    then have "fs (take idx parent) \<noteq> None"
      by (auto dest: dir_check_None)
    moreover have "walk pr fs [] (take idx parent) = None"
      using h by (intro walk_take) simp
    ultimately show ?thesis
      by (intro create_parent_existing)
  next
    case False
    then have "take idx parent = parent" by simp
    with h show ?thesis
      by (simp add: create_parent_denied)
  qed
  have pv: "provision pr cfg parent [0..<Suc (length parent)] fs = (Inr (), fs)"
    by (rule provision_idle) (rule step)
  have "dir_check pr fs parent = Some FileNotFoundError"
    using h by (simp add: dir_check_def)
  with h have "walk pr fs [] (candidate pr parent name ''.tmp'' 0) = Some FileNotFoundError"
    by (simp add: candidate_def walk_snoc)
  then have "os_mkdir pr fs (candidate pr parent name ''.tmp'' 0) 448 =
      (Inl (OSError FileNotFoundError (candidate pr parent name ''.tmp'' 0) None), fs)"
    by (simp add: os_mkdir_def)
  then have "mkdtemp pr fs ''.tmp'' name parent =
      (Inl (OSError FileNotFoundError (candidate pr parent name ''.tmp'' 0) None), fs)"
    by (simp add: mkdtemp_def TMP_MAX_def mkdtemp_from_step)
  with pv show "writer_cm_enter pr cfg parent name fs =
        (Inl (OSError FileNotFoundError (candidate pr parent name ''.tmp'' 0) None), fs)"
    by (simp add: writer_cm_enter_def del: upt_Suc)
qed

theorem ancestor_errors_suppressed_witness:
  "fst (provision alice (default_config\<lparr>user := Some ''bob''\<rparr>) [''tmp'', ''x''] [0, 1, 2] fs_tmp)
     = Inl (LookupError ''no such user: bob'') \<and>
   \<not> suppressed (LookupError ''no such user: bob'') \<and>
   fst (mkdir alice fs_tmp (take 1 [''x''])) = Inl (OSError PermissionError [''x''] None) \<and>
   suppressed (OSError PermissionError [''x''] None) \<and>
   provision alice default_config [''x''] [1] fs_tmp = (Inr (), fs_tmp) \<and>
   fst (mkdir alice fs_tmp (take 2 [''x'', ''y'']))
     = Inl (OSError FileNotFoundError [''x'', ''y''] None) \<and>
   \<not> suppressed (OSError FileNotFoundError [''x'', ''y''] None) \<and>
   provision alice default_config [''x'', ''y''] [2] fs_tmp
     = (Inl (OSError FileNotFoundError [''x'', ''y''] None), fs_tmp) \<and>
   fst (mkdir alice fs_tmp (take 2 [''tmp'', ''x''])) = Inr () \<and>
   fst (set_properties alice (snd (mkdir alice fs_tmp (take 2 [''tmp'', ''x'']))) (take 2 [''tmp'', ''x''])
          (dir_perms (default_config\<lparr>user := Some ''bob''\<rparr>))
          (user (default_config\<lparr>user := Some ''bob''\<rparr>))
          (group_name (default_config\<lparr>user := Some ''bob''\<rparr>)))
     = Inl (LookupError ''no such user: bob'') \<and>
   fst (provision alice (default_config\<lparr>user := Some ''bob''\<rparr>) [''tmp'', ''x''] [2] fs_tmp)
     = Inl (LookupError ''no such user: bob'') \<and>
   fst (provision alice default_config [''x'', ''y''] [0..<Suc (length [''x'', ''y''])] fs_tmp)
     = Inl (OSError FileNotFoundError [''x'', ''y''] None) \<and>
   fst (writer_cm_enter alice default_config [''x'', ''y''] ''f'' fs_tmp)
     = Inl (OSError FileNotFoundError [''x'', ''y''] None) \<and>
   walk alice fs_tmp [] [''x''] = None \<and> fs_tmp [''x''] = None \<and>
   \<not> writable_dir alice fs_tmp (butlast [''x'']) \<and>
   fst (writer_cm_enter alice default_config [''x''] ''f'' fs_tmp)
     = Inl (OSError FileNotFoundError [''x'', ''fk3x.tmp''] None)"
proof -
  let ?cfg = "default_config\<lparr>user := Some ''bob''\<rparr>"
  let ?fs1 = "snd (provision alice ?cfg [''tmp'', ''x''] [0, 1, 2] fs_tmp)"
  have e: "fst (provision alice ?cfg [''tmp'', ''x''] [0, 1, 2] fs_tmp)
     = Inl (LookupError ''no such user: bob'')"
    by (simp add: eval_defs alice_def fs_tmp_def)
  then have pv: "provision alice ?cfg [''tmp'', ''x''] [0, 1, 2] fs_tmp
     = (Inl (LookupError ''no such user: bob''), ?fs1)"
    by (metis prod.collapse)
  have h: "walk alice fs_tmp [] [''x''] = None \<and> fs_tmp [''x''] = None \<and>
     \<not> writable_dir alice fs_tmp (butlast [''x''])"
    by (simp add: eval_defs alice_def fs_tmp_def)
  note t1 = ancestor_errors_suppressed [where pr = alice and cfg = ?cfg
      and parent = "[''tmp'', ''x'']" and idxs = "[0, 1, 2]" and fs = fs_tmp]
  note t2 = ancestor_errors_suppressed [where pr = alice and cfg = default_config
      and parent = "[''x'']" and idxs = "[]" and idx = 1 and fs = fs_tmp and name = "''f''"]
  note t3 = ancestor_errors_suppressed [where pr = alice and cfg = default_config
      and parent = "[''x'', ''y'']" and idxs = "[]" and idx = 2 and fs = fs_tmp and name = "''f''"]
  note t4 = ancestor_errors_suppressed [where pr = alice and cfg = ?cfg
      and parent = "[''tmp'', ''x'']" and idxs = "[]" and idx = 2 and fs = fs_tmp]
  from t1 pv have a: "\<not> suppressed (LookupError ''no such user: bob'')"
    by blast
  have mk1: "fst (mkdir alice fs_tmp (take 1 [''x''])) = Inl (OSError PermissionError [''x''] None)"
    by (simp add: eval_defs alice_def fs_tmp_def)
  have s1: "suppressed (OSError PermissionError [''x''] None)"
    by simp
  from t2 mk1 have "provision alice default_config [''x''] [1] fs_tmp =
      (if suppressed (OSError PermissionError [''x''] None)
       then provision alice default_config [''x''] [] fs_tmp
       else (Inl (OSError PermissionError [''x''] None), fs_tmp))"
    by blast
  then have p1: "provision alice default_config [''x''] [1] fs_tmp = (Inr (), fs_tmp)"
    by simp
  have mk2: "fst (mkdir alice fs_tmp (take 2 [''x'', ''y'']))
     = Inl (OSError FileNotFoundError [''x'', ''y''] None)"
    by (simp add: eval_defs alice_def fs_tmp_def)
  have s2: "\<not> suppressed (OSError FileNotFoundError [''x'', ''y''] None)"
    by simp
  from t3 mk2 have "provision alice default_config [''x'', ''y''] [2] fs_tmp =
      (if suppressed (OSError FileNotFoundError [''x'', ''y''] None)
       then provision alice default_config [''x'', ''y''] [] fs_tmp
       else (Inl (OSError FileNotFoundError [''x'', ''y''] None), fs_tmp))"
    by blast
  then have p2: "provision alice default_config [''x'', ''y''] [2] fs_tmp
     = (Inl (OSError FileNotFoundError [''x'', ''y''] None), fs_tmp)"
    by simp
  let ?sp = "set_properties alice (snd (mkdir alice fs_tmp (take 2 [''tmp'', ''x''])))
          (take 2 [''tmp'', ''x'']) (dir_perms ?cfg) (user ?cfg) (group_name ?cfg)"
  have mk3: "fst (mkdir alice fs_tmp (take 2 [''tmp'', ''x''])) = Inr ()"
    by (simp add: eval_defs alice_def fs_tmp_def)
  have sp3: "fst ?sp = Inl (LookupError ''no such user: bob'')"
    by (simp add: eval_defs alice_def fs_tmp_def)
  from t4 mk3 sp3 have "provision alice ?cfg [''tmp'', ''x''] [2] fs_tmp =
      (if suppressed (LookupError ''no such user: bob'')
       then provision alice ?cfg [''tmp'', ''x''] [] (snd ?sp)
       else (Inl (LookupError ''no such user: bob''), snd ?sp))"
    by blast
  then have p3: "fst (provision alice ?cfg [''tmp'', ''x''] [2] fs_tmp)
     = Inl (LookupError ''no such user: bob'')"
    by simp
  let ?pv = "provision alice default_config [''x'', ''y''] [0..<Suc (length [''x'', ''y''])] fs_tmp"
  have e4: "fst ?pv = Inl (OSError FileNotFoundError [''x'', ''y''] None)"
    by (simp add: eval_defs alice_def fs_tmp_def)
  then have "?pv = (Inl (OSError FileNotFoundError [''x'', ''y''] None), snd ?pv)"
    by (metis prod.collapse)
  with t3 have "writer_cm_enter alice default_config [''x'', ''y''] ''f'' fs_tmp
      = (Inl (OSError FileNotFoundError [''x'', ''y''] None), snd ?pv)"
    by blast
  then have p4: "fst (writer_cm_enter alice default_config [''x'', ''y''] ''f'' fs_tmp)
     = Inl (OSError FileNotFoundError [''x'', ''y''] None)"
    by simp
  from t2 h have "writer_cm_enter alice default_config [''x''] ''f'' fs_tmp =
        (Inl (OSError FileNotFoundError (candidate alice [''x''] ''f'' ''.tmp'' 0) None), fs_tmp)"
    by blast
  then have b: "fst (writer_cm_enter alice default_config [''x''] ''f'' fs_tmp)
     = Inl (OSError FileNotFoundError [''x'', ''fk3x.tmp''] None)"
    by (simp add: candidate_def alice_def)
  from e a mk1 s1 p1 mk2 s2 p2 mk3 sp3 p3 e4 p4 h b show ?thesis
    by blast
qed

text \<open>
  C8, as stated, fails for the ancestor directories: \<^verbatim>\<open>_set_properties\<close> is called inside
  the \<^verbatim>\<open>suppress\<close> block. An ordinary user who asks for \<^verbatim>\<open>user="root"\<close> gets
  \<^verbatim>\<open>PermissionError\<close> from the ownership change of the new \<^verbatim>\<open>/tmp/x\<close>; the error does not
  reach the caller, whose block is entered with \<^verbatim>\<open>/tmp/x\<close> still owned by the user, and
  an exception of the block is what the statement then raises.
\<close>

theorem ancestor_property_failure_swallowed:
  "fst (mkdir alice fs_tmp [''tmp'', ''x'']) = Inr () \<and>
   fst (set_properties alice (snd (mkdir alice fs_tmp [''tmp'', ''x''])) [''tmp'', ''x'']
          (dir_perms (default_config\<lparr>user := Some ''root''\<rparr>))
          (user (default_config\<lparr>user := Some ''root''\<rparr>))
          (group_name (default_config\<lparr>user := Some ''root''\<rparr>)))
     = Inl (OSError PermissionError [''tmp'', ''x''] None) \<and>
   fst (writer_cm_enter alice (default_config\<lparr>user := Some ''root''\<rparr>) [''tmp'', ''x''] ''f'' fs_tmp)
     = Inr ([''tmp'', ''x'', ''fk3x.tmp''], [''tmp'', ''x'', ''fk3x.tmp'', ''f'']) \<and>
   snd (writer_cm_enter alice (default_config\<lparr>user := Some ''root''\<rparr>) [''tmp'', ''x''] ''f'' fs_tmp)
       [''tmp'', ''x'']
     = Some (Dir \<lparr>mode = 488, owner = ''alice'', grp = ''staff''\<rparr>) \<and>
   fst (writer_cm alice (default_config\<lparr>user := Some ''root''\<rparr>) [''tmp'', ''x''] ''f''
          \<lparr>writes = None, raises = Some (Exception ''stop'')\<rparr> fs_tmp)
     = Inl (Exception ''stop'')"
  by (simp add: eval_defs alice_def fs_tmp_def mkdtemp_from_step)

text \<open>
  C8, amended. A failure of \<^verbatim>\<open>_set_properties\<close> on the destination after a successful
  move is what the statement raises, and the destination stays as that failed call left
  it (nothing is tried again). A failure of \<^verbatim>\<open>_set_properties\<close> on a newly created
  ancestor leaves the loop at once unless it is of a suppressed class
  (\<^verbatim>\<open>FileExistsError\<close>, \<^verbatim>\<open>IsADirectoryError\<close>, \<^verbatim>\<open>PermissionError\<close>), in which case the
  loop goes on with the next ancestor from the state the failed call left.
\<close>

theorem property_failures:
  "(fst (writer_cm_enter pr cfg parent name fs) = Inr (temp_dir, source) \<and>
    raises body = None \<and>
    move_staged pr cfg source (parent @ [name])
        (snd (run_caller pr body source (snd (writer_cm_enter pr cfg parent name fs))))
      = (Inr u, fs4) \<and>
    set_properties pr fs4 (parent @ [name]) (file_perms cfg) (user cfg) (group_name cfg)
      = (Inl e, fs5) \<longrightarrow>
    fst (writer_cm pr cfg parent name body fs) = Inl e \<and>
    snd (writer_cm pr cfg parent name body fs) (parent @ [name]) = fs5 (parent @ [name])) \<and>
   (fst (mkdir pr fs0 (take idx parts)) = Inr u' \<and>
    fst (set_properties pr (snd (mkdir pr fs0 (take idx parts))) (take idx parts)
           (dir_perms cfg) (user cfg) (group_name cfg)) = Inl e' \<longrightarrow>
    provision pr cfg parts (idx # idxs) fs0 =
      (if suppressed e'
       then provision pr cfg parts idxs
              (snd (set_properties pr (snd (mkdir pr fs0 (take idx parts))) (take idx parts)
                      (dir_perms cfg) (user cfg) (group_name cfg)))
       else (Inl e',
             snd (set_properties pr (snd (mkdir pr fs0 (take idx parts))) (take idx parts)
                    (dir_perms cfg) (user cfg) (group_name cfg)))))"
proof (intro conjI impI)
  assume h: "fst (writer_cm_enter pr cfg parent name fs) = Inr (temp_dir, source) \<and>
    raises body = None \<and>
    move_staged pr cfg source (parent @ [name])
        (snd (run_caller pr body source (snd (writer_cm_enter pr cfg parent name fs))))
      = (Inr u, fs4) \<and>
    set_properties pr fs4 (parent @ [name]) (file_perms cfg) (user cfg) (group_name cfg)
      = (Inl e, fs5)"
  let ?fs2 = "snd (writer_cm_enter pr cfg parent name fs)"
  have enter: "writer_cm_enter pr cfg parent name fs = (Inr (temp_dir, source), ?fs2)"
    by (metis h prod.collapse)
  from h have "publish pr cfg source (parent @ [name]) (snd (run_caller pr body source ?fs2))
      = (Inl e, fs5)"
    by (simp add: publish_def)
  with writer_cm_skeleton [OF enter, of body] h have res:
    "writer_cm pr cfg parent name body fs =
       (Inl e, (\<lambda>q. if prefix temp_dir q then None else fs5 q))"
    by simp
  from staged(1) [OF enter] have "\<not> prefix temp_dir (parent @ [name])"
    by auto
  with res show "fst (writer_cm pr cfg parent name body fs) = Inl e"
    and "snd (writer_cm pr cfg parent name body fs) (parent @ [name]) = fs5 (parent @ [name])"
    by simp_all
next
  assume h: "fst (mkdir pr fs0 (take idx parts)) = Inr u' \<and>
    fst (set_properties pr (snd (mkdir pr fs0 (take idx parts))) (take idx parts)
           (dir_perms cfg) (user cfg) (group_name cfg)) = Inl e'"
  then have "create_parent pr cfg fs0 (take idx parts) =
           (if suppressed e' then Inr () else Inl e',
            snd (set_properties pr (snd (mkdir pr fs0 (take idx parts))) (take idx parts)
                   (dir_perms cfg) (user cfg) (group_name cfg)))"
    by (intro create_parent_set_properties) simp_all
  then show "provision pr cfg parts (idx # idxs) fs0 =
      (if suppressed e'
       then provision pr cfg parts idxs
              (snd (set_properties pr (snd (mkdir pr fs0 (take idx parts))) (take idx parts)
                      (dir_perms cfg) (user cfg) (group_name cfg)))
       else (Inl e',
             snd (set_properties pr (snd (mkdir pr fs0 (take idx parts))) (take idx parts)
                    (dir_perms cfg) (user cfg) (group_name cfg))))"
    by simp
qed

theorem property_failures_witness:
  "fst (writer_cm_enter alice (default_config\<lparr>user := Some ''root''\<rparr>) [''tmp''] ''f'' fs_tmp)
     = Inr ([''tmp'', ''fk3x.tmp''], [''tmp'', ''fk3x.tmp'', ''f'']) \<and>
   raises \<lparr>writes = Some ''data'', raises = None\<rparr> = None \<and>
   fst (move_staged alice (default_config\<lparr>user := Some ''root''\<rparr>) [''tmp'', ''fk3x.tmp'', ''f'']
          ([''tmp''] @ [''f''])
          (snd (run_caller alice \<lparr>writes = Some ''data'', raises = None\<rparr> [''tmp'', ''fk3x.tmp'', ''f'']
             (snd (writer_cm_enter alice (default_config\<lparr>user := Some ''root''\<rparr>) [''tmp''] ''f''
                     fs_tmp)))))
     = Inr () \<and>
   fst (writer_cm alice (default_config\<lparr>user := Some ''root''\<rparr>) [''tmp''] ''f''
          \<lparr>writes = Some ''data'', raises = None\<rparr> fs_tmp)
     = Inl (OSError PermissionError [''tmp'', ''f''] None) \<and>
   fst (mkdir alice fs_tmp (take 2 [''tmp'', ''x''])) = Inr () \<and>
   suppressed (OSError PermissionError [''tmp'', ''x''] None) \<and>
   fst (provision alice (default_config\<lparr>user := Some ''root''\<rparr>) [''tmp'', ''x''] [2] fs_tmp) = Inr () \<and>
   \<not> suppressed (LookupError ''no such user: bob'') \<and>
   fst (provision alice (default_config\<lparr>user := Some ''bob''\<rparr>) [''tmp'', ''x''] [2] fs_tmp)
     = Inl (LookupError ''no such user: bob'')"
proof -
  let ?cfg = "default_config\<lparr>user := Some ''root''\<rparr>"
  let ?bob = "default_config\<lparr>user := Some ''bob''\<rparr>"
  let ?body = "\<lparr>writes = Some ''data'', raises = None\<rparr>"
  let ?src = "[''tmp'', ''fk3x.tmp'', ''f'']"
  let ?fs3 = "snd (run_caller alice ?body ?src (snd (writer_cm_enter alice ?cfg [''tmp''] ''f'' fs_tmp)))"
  let ?mv = "move_staged alice ?cfg ?src ([''tmp''] @ [''f'']) ?fs3"
  let ?sp = "set_properties alice (snd ?mv) ([''tmp''] @ [''f'']) (file_perms ?cfg) (user ?cfg)
               (group_name ?cfg)"
  have enter: "fst (writer_cm_enter alice ?cfg [''tmp''] ''f'' fs_tmp)
     = Inr ([''tmp'', ''fk3x.tmp''], ?src)"
    by (simp add: eval_defs alice_def fs_tmp_def mkdtemp_from_step)
  have r: "raises ?body = None"
    by simp
  have mv: "fst ?mv = Inr ()"
    by (simp add: eval_defs alice_def fs_tmp_def mkdtemp_from_step)
  have sp: "fst ?sp = Inl (OSError PermissionError [''tmp'', ''f''] None)"
    by (simp add: eval_defs alice_def fs_tmp_def mkdtemp_from_step)
  have mv': "?mv = (Inr (), snd ?mv)"
    by (metis mv prod.collapse)
  have sp': "?sp = (Inl (OSError PermissionError [''tmp'', ''f''] None), snd ?sp)"
    by (metis sp prod.collapse)
  let ?dir = "\<lambda>c. set_properties alice (snd (mkdir alice fs_tmp (take 2 [''tmp'', ''x'']))) (take 2 [''tmp'', ''x''])
                 (dir_perms c) (user c) (group_name c)"
  have mk: "fst (mkdir alice fs_tmp (take 2 [''tmp'', ''x''])) = Inr ()"
    by (simp add: eval_defs alice_def fs_tmp_def)
  have d1: "fst (?dir ?cfg) = Inl (OSError PermissionError [''tmp'', ''x''] None)"
    by (simp add: eval_defs alice_def fs_tmp_def)
  have d2: "fst (?dir ?bob) = Inl (LookupError ''no such user: bob'')"
    by (simp add: eval_defs alice_def fs_tmp_def)
  have s1: "suppressed (OSError PermissionError [''tmp'', ''x''] None)"
    and s2: "\<not> suppressed (LookupError ''no such user: bob'')"
    by simp_all
  note A = property_failures [of alice ?cfg "[''tmp'']" "''f''" fs_tmp "[''tmp'', ''fk3x.tmp'']" ?src
      ?body "()" "snd ?mv" "OSError PermissionError [''tmp'', ''f''] None" "snd ?sp"]
  from A enter r mv' sp' have a: "fst (writer_cm alice ?cfg [''tmp''] ''f'' ?body fs_tmp)
     = Inl (OSError PermissionError [''tmp'', ''f''] None)"
    by blast
  note B1 = property_failures [of alice ?cfg _ _ _ _ _ _ _ _ _ _ fs_tmp 2 "[''tmp'', ''x'']" "()"
      "OSError PermissionError [''tmp'', ''x''] None" "[]"]
  from B1 mk d1 have "provision alice ?cfg [''tmp'', ''x''] [2] fs_tmp =
      (if suppressed (OSError PermissionError [''tmp'', ''x''] None)
       then provision alice ?cfg [''tmp'', ''x''] [] (snd (?dir ?cfg))
       else (Inl (OSError PermissionError [''tmp'', ''x''] None), snd (?dir ?cfg)))"
    by blast
  then have b1: "fst (provision alice ?cfg [''tmp'', ''x''] [2] fs_tmp) = Inr ()"
    by simp
  note B2 = property_failures [of alice ?bob _ _ _ _ _ _ _ _ _ _ fs_tmp 2 "[''tmp'', ''x'']" "()"
      "LookupError ''no such user: bob''" "[]"]
  from B2 mk d2 have "provision alice ?bob [''tmp'', ''x''] [2] fs_tmp =
      (if suppressed (LookupError ''no such user: bob'')
       then provision alice ?bob [''tmp'', ''x''] [] (snd (?dir ?bob))
       else (Inl (LookupError ''no such user: bob''), snd (?dir ?bob)))"
    by blast
  then have b2: "fst (provision alice ?bob [''tmp'', ''x''] [2] fs_tmp)
      = Inl (LookupError ''no such user: bob'')"
    by simp
  from enter r mv a mk s1 b1 s2 b2 show ?thesis
    by blast
qed

end
